theory Spec2Isabelle
  imports Main "HOL-Library.Sublist" "HOL-Library.Word"
begin

section \<open>Byte strings and the functions of Go's \<open>strings\<close> package that the parser calls\<close>

text \<open>
  Go strings and byte slices are sequences of bytes; they are modelled as \<open>string\<close>
  (lists of 8-bit characters). Every separator, cutset and pattern literal of
  \<open>gen/parser/property.go\<close> is ASCII, so working on bytes instead of runes does not change
  where a match, a cut or a replacement can happen.
\<close>

abbreviation nl :: char where "nl \<equiv> CHR 0x0A"
abbreviation tab :: char where "tab \<equiv> CHR 0x09"

text \<open>\<open>strings.Trim(s, cutset)\<close>: drop the leading and trailing bytes that occur in the cutset.\<close>

definition Trim :: "string \<Rightarrow> string \<Rightarrow> string" where
  "Trim s cutset = rev (dropWhile (\<lambda>x. x \<in> set cutset) (rev (dropWhile (\<lambda>x. x \<in> set cutset) s)))"

text \<open>
  \<open>strings.Split(s, sep)\<close> for a separator of one byte (the parser splits on \<open>","\<close> and
  on \<open>"]"\<close> only). The result has one more element than \<open>s\<close> has separators; in particular
  splitting the empty string gives one empty fragment.
\<close>

fun Split :: "string \<Rightarrow> char \<Rightarrow> string list" where
  "Split [] sep = [[]]"
| "Split (x # xs) sep =
     (if x = sep then [] # Split xs sep
      else (case Split xs sep of [] \<Rightarrow> [[x]] | f # fs \<Rightarrow> (x # f) # fs))"

text \<open>\<open>strings.Contains(s, substr)\<close>.\<close>

fun Contains :: "string \<Rightarrow> string \<Rightarrow> bool" where
  "Contains [] sub = (sub = [])"
| "Contains (x # xs) sub = (prefix sub (x # xs) \<or> Contains xs sub)"

text \<open>
  \<open>strings.Replace(s, old, new, -1)\<close> for a non-empty \<open>old\<close>: every non-overlapping
  occurrence, found from the left, is replaced. (The parser only passes the non-empty
  literals \<open>" \t\n"\<close> and \<open>" (optional)"\<close>; for an empty \<open>old\<close> this model returns \<open>s\<close>.)
\<close>

function Replace :: "string \<Rightarrow> string \<Rightarrow> string \<Rightarrow> string" where
  "Replace [] old new = []"
| "Replace (x # xs) old new =
     (if old \<noteq> [] \<and> prefix old (x # xs)
      then new @ Replace (drop (length old) (x # xs)) old new
      else x # Replace xs old new)"
  by pat_completeness auto
termination
  by (relation "measure (\<lambda>(s, old, new). length s)") (auto simp: neq_Nil_conv)

section \<open>Regular expressions as Go's \<open>regexp\<close> package matches them\<close>

text \<open>
  The two patterns of \<open>Parse\<close> use literals, character classes, alternation, one optional
  group, capture groups, and repetition of a single character class (greedy or lazy).
  The syntax tree below has exactly these constructs. A capture group carries the index
  Go gives it (the position of its opening parenthesis).
\<close>

datatype cls =
    OneOf string      \<comment> \<open>\<open>[abc]\<close>\<close>
  | NoneOf string     \<comment> \<open>\<open>[^abc]\<close>, which also matches a newline\<close>
  | Range char char   \<comment> \<open>\<open>[a-z]\<close>\<close>
  | Dot               \<comment> \<open>\<open>.\<close>: any byte but the newline\<close>
  | DotAll            \<comment> \<open>\<open>.\<close> under the flag \<open>(?s)\<close>: any byte\<close>

fun cls_match :: "cls \<Rightarrow> char \<Rightarrow> bool" where
  "cls_match (OneOf cs) x = (x \<in> set cs)"
| "cls_match (NoneOf cs) x = (x \<notin> set cs)"
| "cls_match (Range lo hi) x = ((of_char lo :: nat) \<le> of_char x \<and> (of_char x :: nat) \<le> of_char hi)"
| "cls_match Dot x = (x \<noteq> nl)"
| "cls_match DotAll x = True"

datatype greed = Greedy | Lazy

datatype regex =
    Chars cls
  | Lit string
  | Seq regex regex
  | Alt regex regex
  | Opt regex              \<comment> \<open>\<open>r?\<close>, greedy\<close>
  | Star cls greed         \<comment> \<open>\<open>c*\<close> and \<open>c*?\<close>\<close>
  | Plus cls greed         \<comment> \<open>\<open>c+\<close> and \<open>c+?\<close>\<close>
  | Group nat regex        \<comment> \<open>\<open>(r)\<close>, capture group number \<open>n\<close>\<close>

text \<open>
  The package documentation fixes which match is returned: the one that begins as early
  as possible in the input and, among those, the one a backtracking engine would have
  found first. \<open>ms r (c, s)\<close> lists, in the order a backtracking engine tries them, all
  the ways \<open>r\<close> can match a prefix of \<open>s\<close>: each way is the capture table after the match
  and the input that is left.

  For a repeated class the ways are the lengths of the run: the longest first when the
  repetition is greedy, the shortest first when it is lazy.
\<close>

fun star_rests :: "cls \<Rightarrow> greed \<Rightarrow> string \<Rightarrow> string list" where
  "star_rests k g [] = [[]]"
| "star_rests k g (x # xs) =
     (if cls_match k x
      then (case g of Greedy \<Rightarrow> star_rests k g xs @ [x # xs]
                    | Lazy \<Rightarrow> (x # xs) # star_rests k g xs)
      else [x # xs])"

definition plus_rests :: "cls \<Rightarrow> greed \<Rightarrow> string \<Rightarrow> string list" where
  "plus_rests k g s =
     (case s of [] \<Rightarrow> [] | x # xs \<Rightarrow> if cls_match k x then star_rests k g xs else [])"

type_synonym caps = "string option list"

fun ms :: "regex \<Rightarrow> caps \<times> string \<Rightarrow> (caps \<times> string) list" where
  "ms (Chars k) (c, s) =
     (case s of [] \<Rightarrow> [] | x # xs \<Rightarrow> if cls_match k x then [(c, xs)] else [])"
| "ms (Lit t) (c, s) = (if prefix t s then [(c, drop (length t) s)] else [])"
| "ms (Seq a b) (c, s) = concat (map (ms b) (ms a (c, s)))"
| "ms (Alt a b) (c, s) = ms a (c, s) @ ms b (c, s)"
| "ms (Opt a) (c, s) = ms a (c, s) @ [(c, s)]"
| "ms (Star k g) (c, s) = map (\<lambda>s'. (c, s')) (star_rests k g s)"
| "ms (Plus k g) (c, s) = map (\<lambda>s'. (c, s')) (plus_rests k g s)"
| "ms (Group n r) (c, s) =
     map (\<lambda>(c', s'). (c'[n := Some (take (length s - length s') s)], s')) (ms r (c, s))"

text \<open>The number of capture groups of a pattern (the largest group index).\<close>

fun ngroups :: "regex \<Rightarrow> nat" where
  "ngroups (Seq a b) = max (ngroups a) (ngroups b)"
| "ngroups (Alt a b) = max (ngroups a) (ngroups b)"
| "ngroups (Opt a) = ngroups a"
| "ngroups (Group n r) = max n (ngroups r)"
| "ngroups _ = 0"

text \<open>
  The match beginning at the start of \<open>s\<close>, if there is one: the first way of \<open>ms\<close>.
  Element 0 of a match is the whole matched text, element \<open>n\<close> the text of group \<open>n\<close>,
  \<open>None\<close> (Go's \<open>nil\<close> slice) for a group that took no part in the match.
\<close>

definition match_here :: "regex \<Rightarrow> string \<Rightarrow> (caps \<times> string) option" where
  "match_here re s =
     (case ms re (replicate (Suc (ngroups re)) None, s) of
        [] \<Rightarrow> None
      | (c, s') # _ \<Rightarrow> Some (c[0 := Some (take (length s - length s') s)], s'))"

text \<open>The leftmost match: the first start position, from the left, that has a match.\<close>

fun search :: "regex \<Rightarrow> string \<Rightarrow> (caps \<times> string) option" where
  "search re [] = match_here re []"
| "search re (x # xs) =
     (case match_here re (x # xs) of Some m \<Rightarrow> Some m | None \<Rightarrow> search re xs)"

text \<open>
  \<open>re.FindAllSubmatch(raw, -1)\<close>: the successive non-overlapping matches, each starting
  the search where the previous match ended. (A match of either pattern of \<open>Parse\<close> is
  never empty; the model stops after an empty match.)
\<close>

function FindAllSubmatch :: "regex \<Rightarrow> string \<Rightarrow> caps list" where
  "FindAllSubmatch re s =
     (case search re s of
        None \<Rightarrow> []
      | Some (m, rest) \<Rightarrow>
          if length rest < length s then m # FindAllSubmatch re rest else [m])"
  by pat_completeness auto
termination
  by (relation "measure (\<lambda>(re, s). length s)") auto

section \<open>The property block parser (\<open>gen/parser/property.go\<close>)\<close>

text \<open>
  Modelled from the spec: the package \<open>gen/types\<close> is not among the sources. \<open>Parse\<close>
  assigns the fields \<open>Type\<close>, \<open>Name\<close>, \<open>Flags\<close> and \<open>Docs\<close> of a \<open>types.Property\<close>, and
  the spec gives the flag vocabulary (ReadOnly, ReadWrite, Experimental). \<open>Flags\<close> is a
  slice in the code, so it is a list here. The zero value of the integer type
  \<open>types.Flag\<close>, which the test \<open>flag > 0\<close> of \<open>Parse\<close> tells from the three constants,
  is \<open>None\<close> of \<open>Flag option\<close>.
\<close>

datatype Flag = FlagReadOnly | FlagReadWrite | FlagExperimental

record Property =
  Type :: string
  Name :: string
  Flags :: "Flag list"
  Docs :: string

text \<open>\<open>errors.New(msg)\<close>.\<close>

datatype error = Error string

text \<open>A run-time panic aborts the call; it is not a returned error.\<close>

datatype panic = IndexOutOfRange | NilDereference | TypeAssertion

text \<open>
  \<open>PropertyParser.model\<close> is a pointer: the heap is the list of the allocated
  \<open>Property\<close> cells and a pointer is an index into it. An index outside the heap stands for
  \<open>nil\<close> (the \<open>model\<close> of a \<open>PropertyParser\<close> that \<open>NewPropertyParser\<close> did not build).
\<close>

type_synonym heap = "Property list"

record PropertyParser =
  model :: nat
  debug :: bool

text \<open>\<open>new(types.Property)\<close>: a fresh cell holding the zero value.\<close>

definition new_Property :: "heap \<Rightarrow> nat \<times> heap" where
  "new_Property h = (length h, h @ [\<lparr>Type = [], Name = [], Flags = [], Docs = []\<rparr>])"

definition NewPropertyParser :: "bool \<Rightarrow> heap \<Rightarrow> PropertyParser \<times> heap" where
  "NewPropertyParser dbg h =
     (case new_Property h of (p, h') \<Rightarrow> (\<lparr>model = p, debug = dbg\<rparr>, h'))"

text \<open>
  \<open>propBaseRegexp\<close>:
  \<^verbatim>\<open>(bool|boolean|byte|string|int16|uint16|uint16_t|uint32|dict|object|array\{.*?) ([A-Z].+?)\<close>
\<close>

definition propBaseRegexp :: regex where
  "propBaseRegexp =
     Seq (Group 1
            (Alt (Lit ''bool'') (Alt (Lit ''boolean'') (Alt (Lit ''byte'') (Alt (Lit ''string'')
            (Alt (Lit ''int16'') (Alt (Lit ''uint16'') (Alt (Lit ''uint16_t'') (Alt (Lit ''uint32'')
            (Alt (Lit ''dict'') (Alt (Lit ''object'')
            (Seq (Lit ''array{'') (Star Dot Lazy)))))))))))))
    (Seq (Lit '' '')
         (Group 2 (Seq (Chars (Range CHR ''A'' CHR ''Z'')) (Plus Dot Lazy))))"

text \<open>
  The first pattern of \<open>Parse\<close>:
  \<^verbatim>\<open>[ \t]*?\<close> + \<open>propBaseRegexp\<close> + \<^verbatim>\<open>( \[[^\]]*\].*)?\n((?s).+)\<close>
\<close>

definition re_strict :: regex where
  "re_strict =
     Seq (Star (OneOf [CHR '' '', tab]) Lazy)
    (Seq propBaseRegexp
    (Seq (Opt (Group 3 (Seq (Lit '' ['') (Seq (Star (NoneOf '']'') Greedy)
                        (Seq (Lit '']'') (Star Dot Greedy))))))
    (Seq (Lit [nl])
         (Group 4 (Plus DotAll Greedy)))))"

text \<open>
  The second pattern: \<^verbatim>\<open>[ \t]*?\<close> + \<open>propBaseRegexp\<close> + \<^verbatim>\<open>\n((?s).+)\<close>
\<close>

definition re_loose :: regex where
  "re_loose =
     Seq (Star (OneOf [CHR '' '', tab]) Lazy)
    (Seq propBaseRegexp
    (Seq (Lit [nl])
         (Group 3 (Plus DotAll Greedy))))"

text \<open>
  \<open>matches2\<close> as it stands when line 44 of \<open>Parse\<close> is reached: the matches of the first
  pattern, or those of the second when the first has none (or when its first match has
  length 1).
\<close>

definition matches2 :: "string \<Rightarrow> caps list" where
  "matches2 raw =
     (let m = FindAllSubmatch re_strict raw in
      if (case m of [] \<Rightarrow> True | m0 # _ \<Rightarrow> length m0 = 1)
      then FindAllSubmatch re_loose raw
      else m)"

text \<open>
  \<open>string(matches2[0][i])\<close>: an index beyond the match panics; a group that took no
  part in the match is a \<open>nil\<close> slice, whose string is empty.
\<close>

definition at_str :: "caps \<Rightarrow> nat \<Rightarrow> panic + string" where
  "at_str m i =
     (if i < length m then Inr (case m ! i of None \<Rightarrow> [] | Some t \<Rightarrow> t)
      else Inl IndexOutOfRange)"

text \<open>The \<open>switch f\<close> of the flag loop; \<open>None\<close> is the zero \<open>flag\<close> no case has set.\<close>

definition switch_flag :: "string \<Rightarrow> Flag option" where
  "switch_flag f =
     (if f = ''readonly'' then Some FlagReadOnly
      else if f = ''readwrite'' then Some FlagReadWrite
      else if f = ''experimental'' then Some FlagExperimental
      else None)"

text \<open>The fragment the \<open>switch\<close> sees: cut at the first \<open>]\<close> when there is one.\<close>

definition cut_bracket :: "string \<Rightarrow> string" where
  "cut_bracket f = (if Contains f '']'' then hd (Split f CHR '']'') else f)"

text \<open>The loop \<open>for _, f := range flagList\<close>, with the slice \<open>flags\<close> it appends to.\<close>

fun flags_loop :: "string list \<Rightarrow> Flag list \<Rightarrow> Flag list" where
  "flags_loop [] flags = flags"
| "flags_loop (f # fs) flags =
     flags_loop fs
       (case switch_flag (cut_bracket f) of None \<Rightarrow> flags | Some flag \<Rightarrow> flags @ [flag])"

text \<open>
  \<open>Parse\<close> returns the pointer \<open>g.model\<close> and an error (\<open>None\<close> is \<open>nil\<close>), and leaves a
  heap; or it panics. Logging is not modelled: it changes neither.
\<close>

definition Parse :: "PropertyParser \<Rightarrow> string \<Rightarrow> heap \<Rightarrow> panic + (nat \<times> error option \<times> heap)" where
  "Parse g raw h =
     (let property = model g in
      case matches2 raw of
        [] \<Rightarrow> Inr (property, Some (Error ''No property found''), h)
      | m # _ \<Rightarrow>
         (case at_str m 3 of Inl p \<Rightarrow> Inl p | Inr flagListRaw \<Rightarrow>
         (let flagList = Split (Trim flagListRaw ''[] '') CHR '','';
              flags = flags_loop flagList []
          in
         (case at_str m 4 of Inl p \<Rightarrow> Inl p | Inr docs0 \<Rightarrow>
         (let docs1 = Replace docs0 [CHR '' '', tab, nl] [];
              docs2 = Trim docs1 [CHR '' '', tab, nl]
          in
         (case at_str m 2 of Inl p \<Rightarrow> Inl p | Inr name0 \<Rightarrow>
         (let opt = Contains name0 ''optional'';
              name1 = (if opt then Replace name0 '' (optional)'' [] else name0);
              docs3 = (if opt then ''(optional) '' @ docs2 else docs2);
              name2 = Replace name1 [CHR '' '', tab, nl] []
          in
         (case at_str m 1 of Inl p \<Rightarrow> Inl p | Inr ty \<Rightarrow>
            if property < length h
            then Inr (property, None,
                      list_update h property
                        \<lparr>Type = ty, Name = name2, Flags = flags, Docs = docs3\<rparr>)
            else Inl NilDereference))))))))"

text \<open>
  Two measures of a pattern, used to reason about its matches: the bytes a match of it
  can contain, and the capture groups it can set.
\<close>

fun consumes :: "regex \<Rightarrow> char \<Rightarrow> bool" where
  "consumes (Chars k) x = cls_match k x"
| "consumes (Lit t) x = (x \<in> set t)"
| "consumes (Seq a b) x = (consumes a x \<or> consumes b x)"
| "consumes (Alt a b) x = (consumes a x \<or> consumes b x)"
| "consumes (Opt a) x = consumes a x"
| "consumes (Star k g) x = cls_match k x"
| "consumes (Plus k g) x = cls_match k x"
| "consumes (Group n r) x = consumes r x"

fun groups :: "regex \<Rightarrow> nat set" where
  "groups (Seq a b) = groups a \<union> groups b"
| "groups (Alt a b) = groups a \<union> groups b"
| "groups (Opt a) = groups a"
| "groups (Group n r) = insert n (groups r)"
| "groups _ = {}"

section \<open>The property getters of a generated client (\<open>gen_MediaTransport1.go\<close>)\<close>

text \<open>
  A \<open>dbus.Variant\<close> holds a dynamically typed value; \<open>v.Value().(T)\<close> panics when the
  value is not of type \<open>T\<close>. The constructors are the value vocabulary of the spec's
  property mapping: boolean, byte, 16- and 32-bit integer, string, byte sequence,
  object path, nested mapping.
\<close>

datatype Variant =
    VBool bool
  | VByte "8 word"
  | VUint16 "16 word"
  | VUint32 "32 word"
  | VString string
  | VBytes "8 word list"
  | VPath string
  | VMap "(string \<times> Variant) list"

text \<open>
  Modelled from the spec: \<open>bluez.Client\<close> is not among the sources. Its \<open>GetProperty\<close> is
  the abstract remote call; the field \<open>client\<close> is what that call returns for each
  property name: a variant and an error (\<open>None\<close> is \<open>nil\<close>).
\<close>

record MediaTransport1 =
  client :: "string \<Rightarrow> Variant \<times> error option"

definition GetProperty :: "MediaTransport1 \<Rightarrow> string \<Rightarrow> Variant \<times> error option" where
  "GetProperty a name = client a name"

definition GetDevice :: "MediaTransport1 \<Rightarrow> panic + (string \<times> error option)" where
  "GetDevice a =
     (case GetProperty a ''Device'' of
        (v, Some err) \<Rightarrow> Inr ([], Some err)
      | (v, None) \<Rightarrow> (case v of VPath p \<Rightarrow> Inr (p, None) | _ \<Rightarrow> Inl TypeAssertion))"

definition GetUUID :: "MediaTransport1 \<Rightarrow> panic + (string \<times> error option)" where
  "GetUUID a =
     (case GetProperty a ''UUID'' of
        (v, Some err) \<Rightarrow> Inr ([], Some err)
      | (v, None) \<Rightarrow> (case v of VString t \<Rightarrow> Inr (t, None) | _ \<Rightarrow> Inl TypeAssertion))"

definition GetCodec :: "MediaTransport1 \<Rightarrow> panic + (8 word \<times> error option)" where
  "GetCodec a =
     (case GetProperty a ''Codec'' of
        (v, Some err) \<Rightarrow> Inr (0, Some err)
      | (v, None) \<Rightarrow> (case v of VByte b \<Rightarrow> Inr (b, None) | _ \<Rightarrow> Inl TypeAssertion))"

definition GetConfiguration :: "MediaTransport1 \<Rightarrow> panic + (8 word list \<times> error option)" where
  "GetConfiguration a =
     (case GetProperty a ''Configuration'' of
        (v, Some err) \<Rightarrow> Inr ([], Some err)
      | (v, None) \<Rightarrow> (case v of VBytes bs \<Rightarrow> Inr (bs, None) | _ \<Rightarrow> Inl TypeAssertion))"

definition GetState :: "MediaTransport1 \<Rightarrow> panic + (string \<times> error option)" where
  "GetState a =
     (case GetProperty a ''State'' of
        (v, Some err) \<Rightarrow> Inr ([], Some err)
      | (v, None) \<Rightarrow> (case v of VString t \<Rightarrow> Inr (t, None) | _ \<Rightarrow> Inl TypeAssertion))"

definition GetDelay :: "MediaTransport1 \<Rightarrow> panic + (16 word \<times> error option)" where
  "GetDelay a =
     (case GetProperty a ''Delay'' of
        (v, Some err) \<Rightarrow> Inr (0, Some err)
      | (v, None) \<Rightarrow> (case v of VUint16 n \<Rightarrow> Inr (n, None) | _ \<Rightarrow> Inl TypeAssertion))"

definition GetVolume :: "MediaTransport1 \<Rightarrow> panic + (16 word \<times> error option)" where
  "GetVolume a =
     (case GetProperty a ''Volume'' of
        (v, Some err) \<Rightarrow> Inr (0, Some err)
      | (v, None) \<Rightarrow> (case v of VUint16 n \<Rightarrow> Inr (n, None) | _ \<Rightarrow> Inl TypeAssertion))"

section \<open>The property marshaller\<close>

text \<open>
  Modelled from the spec: \<open>props.ToMap\<close> and \<open>util.MapToStruct\<close>, which the generated
  \<open>ToMap\<close> and \<open>FromMap\<close> call, are not among the sources. What follows is section 4.6 of
  the spec. A record is the list of its fields in declaration order, each with its name,
  its directives and its current value; the declared type of a field is the kind of the
  value it holds.
\<close>

datatype kind = KBool | KByte | KUint16 | KUint32 | KString | KBytes | KPath | KMap

fun kind_of :: "Variant \<Rightarrow> kind" where
  "kind_of (VBool _) = KBool"
| "kind_of (VByte _) = KByte"
| "kind_of (VUint16 _) = KUint16"
| "kind_of (VUint32 _) = KUint32"
| "kind_of (VString _) = KString"
| "kind_of (VBytes _) = KBytes"
| "kind_of (VPath _) = KPath"
| "kind_of (VMap _) = KMap"

text \<open>Modelled from the spec: the zero or empty value of each type.\<close>

fun zero_of :: "kind \<Rightarrow> Variant" where
  "zero_of KBool = VBool False"
| "zero_of KByte = VByte 0"
| "zero_of KUint16 = VUint16 0"
| "zero_of KUint32 = VUint32 0"
| "zero_of KString = VString []"
| "zero_of KBytes = VBytes []"
| "zero_of KPath = VPath []"
| "zero_of KMap = VMap []"

record FieldDescriptor =
  Skip :: bool
  SkipIfFlag :: "string option"
  OmitIfEmpty :: bool
  Writable :: bool

record Field =
  fname :: string
  fdesc :: FieldDescriptor
  fvalue :: Variant

type_synonym Record = "Field list"
type_synonym PropertyMapping = "(string \<times> Variant) list"

text \<open>Modelled from the spec: a sibling boolean field of that name is currently true.\<close>

definition flag_true :: "Record \<Rightarrow> string \<Rightarrow> bool" where
  "flag_true r n = (\<exists>f \<in> set r. fname f = n \<and> fvalue f = VBool True)"

text \<open>
  Modelled from the spec: a field is excluded when its descriptor marks it \<open>Skip\<close>, or
  when \<open>SkipIfFlag\<close> names a sibling boolean field currently true, or when \<open>OmitIfEmpty\<close>
  is set and the value is the zero value of its type.
\<close>

definition excluded :: "Record \<Rightarrow> Field \<Rightarrow> bool" where
  "excluded r f =
     (Skip (fdesc f)
      \<or> (case SkipIfFlag (fdesc f) of None \<Rightarrow> False | Some n \<Rightarrow> flag_true r n)
      \<or> (OmitIfEmpty (fdesc f) \<and> fvalue f = zero_of (kind_of (fvalue f))))"

text \<open>
  Modelled from the spec: \<open>ToMap\<close> goes through the fields in declaration order and emits
  every field that is not excluded, keyed by its name, with its current value.
\<close>

definition ToMap :: "Record \<Rightarrow> PropertyMapping" where
  "ToMap r = map (\<lambda>f. (fname f, fvalue f)) (filter (\<lambda>f. \<not> excluded r f) r)"

text \<open>
  Modelled from the spec: conversion of a value to a field's declared type. A value of
  that type is taken as it is; an integer of another width is converted (narrowed or
  widened); anything else does not convert.
\<close>

fun convert :: "kind \<Rightarrow> Variant \<Rightarrow> Variant option" where
  "convert KByte (VUint16 n) = Some (VByte (ucast n))"
| "convert KByte (VUint32 n) = Some (VByte (ucast n))"
| "convert KUint16 (VByte n) = Some (VUint16 (ucast n))"
| "convert KUint16 (VUint32 n) = Some (VUint16 (ucast n))"
| "convert KUint32 (VByte n) = Some (VUint32 (ucast n))"
| "convert KUint32 (VUint16 n) = Some (VUint32 (ucast n))"
| "convert k v = (if kind_of v = k then Some v else None)"

datatype marshal_error = TypeMismatch string kind

text \<open>
  Modelled from the spec: one mapping entry is assigned to the field of that name, after
  conversion; a value that does not convert is a \<open>TypeMismatch\<close> with the field name and
  the value's actual kind; an entry with no matching field is ignored.
\<close>

fun assign :: "Record \<Rightarrow> string \<Rightarrow> Variant \<Rightarrow> marshal_error + Record" where
  "assign [] k v = Inr []"
| "assign (f # fs) k v =
     (if fname f = k
      then (case convert (kind_of (fvalue f)) v of
              None \<Rightarrow> Inl (TypeMismatch k (kind_of v))
            | Some v' \<Rightarrow> Inr (f\<lparr>fvalue := v'\<rparr> # fs))
      else (case assign fs k v of Inl e \<Rightarrow> Inl e | Inr fs' \<Rightarrow> Inr (f # fs')))"

fun assign_all :: "Record \<Rightarrow> PropertyMapping \<Rightarrow> marshal_error + Record" where
  "assign_all r [] = Inr r"
| "assign_all r ((k, v) # m) =
     (case assign r k v of Inl e \<Rightarrow> Inl e | Inr r' \<Rightarrow> assign_all r' m)"

text \<open>Modelled from the spec: the fresh record of a record type, every field zero.\<close>

definition fresh :: "Record \<Rightarrow> Record" where
  "fresh r = map (\<lambda>f. f\<lparr>fvalue := zero_of (kind_of (fvalue f))\<rparr>) r"

text \<open>
  Modelled from the spec: \<open>FromMap\<close> allocates a fresh record of the receiver's type and
  assigns the entries of the mapping to it. The first argument stands for the record
  type: only the names, directives and kinds of its fields are used.
\<close>

definition FromMap :: "Record \<Rightarrow> PropertyMapping \<Rightarrow> marshal_error + Record" where
  "FromMap ty m = assign_all (fresh ty) m"

section \<open>The code generator\<close>

text \<open>
  Modelled from the spec: \<open>Generate\<close> and its templates are not among the sources (only
  the test that calls it is). Sections 3, 4.4 and 6 of the spec give the contract: one
  file per interface model under the destination root, at a path that is a function of the
  interface name, holding the rendering of that model; a rendering failure aborts the rest
  of the batch and leaves the files already written in place. The renderer and the path
  function are parameters. A file tree maps paths to contents.
\<close>

record MethodModel =
  MethodName :: string
  OrderedArguments :: "(string \<times> string) list"
  OrderedReturns :: "string list"
  MethodDocs :: string
  DeclaredErrors :: "string list"

record InterfaceModel =
  InterfaceName :: string
  Properties :: "(string \<times> Property) list"
  Methods :: "MethodModel list"
  Signals :: "MethodModel list"
  InterfaceDocs :: string

type_synonym filetree = "string \<rightharpoonup> string"

fun Generate ::
  "(InterfaceModel \<Rightarrow> error + string) \<Rightarrow> (string \<Rightarrow> string \<Rightarrow> string) \<Rightarrow>
   InterfaceModel list \<Rightarrow> string \<Rightarrow> filetree \<Rightarrow> filetree \<times> error option" where
  "Generate render path_of [] root fs = (fs, None)"
| "Generate render path_of (m # models) root fs =
     (case render m of
        Inl e \<Rightarrow> (fs, Some e)
      | Inr content \<Rightarrow>
          Generate render path_of models root (fs(path_of root (InterfaceName m) \<mapsto> content)))"

section \<open>Lemmas: strings\<close>

declare FindAllSubmatch.simps [simp del]

lemma Split_nonempty: "Split s c \<noteq> []"
  by (induction s) (auto split: list.splits)

lemma Replace_set: "set (Replace s old new) \<subseteq> set s \<union> set new"
proof (induction s old new rule: Replace.induct)
  case (1 old new)
  then show ?case by simp
next
  case (2 x xs old new)
  show ?case
  proof (cases "old \<noteq> [] \<and> prefix old (x # xs)")
    case True
    with 2(1) have "set (Replace (drop (length old) (x # xs)) old new)
                      \<subseteq> set (drop (length old) (x # xs)) \<union> set new" by blast
    moreover have "set (drop (length old) (x # xs)) \<subseteq> set (x # xs)" by (rule set_drop_subset)
    ultimately show ?thesis using True by auto
  next
    case False
    with 2(2) show ?thesis by auto
  qed
qed

lemma Trim_ends:
  assumes "Trim s cs \<noteq> []"
  shows "hd (Trim s cs) \<notin> set cs \<and> last (Trim s cs) \<notin> set cs"
proof -
  let ?P = "\<lambda>x. x \<in> set cs"
  let ?u = "dropWhile ?P s"
  let ?w = "dropWhile ?P (rev ?u)"
  have T: "Trim s cs = rev ?w" by (simp add: Trim_def)
  with assms have w: "?w \<noteq> []" by simp
  then have "\<not> ?P (hd ?w)" by (rule hd_dropWhile)
  then have l: "last (Trim s cs) \<notin> set cs" using w T by (simp add: last_rev)
  have u: "?u = rev ?w @ rev (takeWhile ?P (rev ?u))"
    by (metis rev_append rev_rev_ident takeWhile_dropWhile_id)
  from w have "rev ?w \<noteq> []" by simp
  with u have "hd ?u = hd (rev ?w)" by (metis hd_append2)
  moreover from u w have "?u \<noteq> []" by (metis append_is_Nil_conv rev_is_Nil_conv)
  then have "\<not> ?P (hd ?u)" by (rule hd_dropWhile)
  ultimately show ?thesis using l T by simp
qed

section \<open>Lemmas: what a match consists of\<close>

lemma star_rests_text:
  "s' \<in> set (star_rests k g s) \<Longrightarrow> \<exists>t. s = t @ s' \<and> (\<forall>x\<in>set t. cls_match k x)"
proof (induction s)
  case Nil
  then show ?case by simp
next
  case (Cons a s)
  show ?case
  proof (cases "cls_match k a \<and> s' \<noteq> a # s")
    case True
    with Cons.prems have "s' \<in> set (star_rests k g s)"
      by (cases g) auto
    from Cons.IH[OF this] obtain t where "s = t @ s'" "\<forall>x\<in>set t. cls_match k x" by blast
    with True have "a # s = (a # t) @ s' \<and> (\<forall>x\<in>set (a # t). cls_match k x)" by simp
    then show ?thesis by blast
  next
    case False
    with Cons.prems have "s' = a # s" by (cases g) (auto split: if_splits)
    then show ?thesis by simp
  qed
qed

lemma star_rests_nonempty: "star_rests k g s \<noteq> []"
  by (cases s; cases g) auto

lemma plus_rests_text:
  "s' \<in> set (plus_rests k g s) \<Longrightarrow> \<exists>t. s = t @ s' \<and> t \<noteq> [] \<and> (\<forall>x\<in>set t. cls_match k x)"
proof (cases s)
  case Nil
  assume "s' \<in> set (plus_rests k g s)"
  with Nil show ?thesis by (simp add: plus_rests_def)
next
  case (Cons a u)
  assume "s' \<in> set (plus_rests k g s)"
  with Cons have a: "cls_match k a" and "s' \<in> set (star_rests k g u)"
    by (auto simp: plus_rests_def split: if_splits)
  from star_rests_text[OF this(2)] obtain t where "u = t @ s'" "\<forall>x\<in>set t. cls_match k x" by blast
  with a Cons have "s = (a # t) @ s' \<and> a # t \<noteq> [] \<and> (\<forall>x\<in>set (a # t). cls_match k x)" by simp
  then show ?thesis by blast
qed

lemma ms_Seq_mem:
  "(c', s') \<in> set (ms (Seq a b) (c, s)) \<longleftrightarrow>
     (\<exists>c1 s1. (c1, s1) \<in> set (ms a (c, s)) \<and> (c', s') \<in> set (ms b (c1, s1)))"
  by auto

lemma ms_Group_mem:
  "(c', s') \<in> set (ms (Group n r) (c, s)) \<longleftrightarrow>
     (\<exists>c1. (c1, s') \<in> set (ms r (c, s)) \<and> c' = c1[n := Some (take (length s - length s') s)])"
  by auto

lemma ms_text:
  "(c', s') \<in> set (ms r (c, s)) \<Longrightarrow> \<exists>t. s = t @ s' \<and> (\<forall>x\<in>set t. consumes r x)"
proof (induction r arbitrary: c s c' s')
  case (Chars k)
  then show ?case by (auto split: list.splits if_splits)
next
  case (Lit t)
  then show ?case by (auto simp: prefix_def split: if_splits)
next
  case (Seq a b)
  from Seq.prems obtain c1 s1 where 1: "(c1, s1) \<in> set (ms a (c, s))"
    and 2: "(c', s') \<in> set (ms b (c1, s1))" unfolding ms_Seq_mem by blast
  from Seq.IH(1)[OF 1] obtain t1 where t1: "s = t1 @ s1" "\<forall>x\<in>set t1. consumes a x" by blast
  from Seq.IH(2)[OF 2] obtain t2 where t2: "s1 = t2 @ s'" "\<forall>x\<in>set t2. consumes b x" by blast
  from t1 t2 have "s = (t1 @ t2) @ s' \<and> (\<forall>x\<in>set (t1 @ t2). consumes (Seq a b) x)" by auto
  then show ?case by blast
next
  case (Alt a b)
  then show ?case by fastforce
next
  case (Opt a)
  then show ?case by fastforce
next
  case (Star k g)
  then show ?case using star_rests_text by fastforce
next
  case (Plus k g)
  then show ?case using plus_rests_text by fastforce
next
  case (Group n r)
  then show ?case unfolding ms_Group_mem by fastforce
qed

lemma ms_length: "(c', s') \<in> set (ms r (c, s)) \<Longrightarrow> length c' = length c"
proof (induction r arbitrary: c s c' s')
  case (Seq a b)
  then show ?case unfolding ms_Seq_mem by metis
next
  case (Group n r)
  then show ?case unfolding ms_Group_mem by fastforce
qed (auto split: list.splits if_splits)

lemma ms_frame:
  "(c', s') \<in> set (ms r (c, s)) \<Longrightarrow> n \<notin> groups r \<Longrightarrow> c' ! n = c ! n"
proof (induction r arbitrary: c s c' s')
  case (Seq a b)
  then show ?case unfolding ms_Seq_mem by (metis UnCI groups.simps(1))
next
  case (Group m r)
  then show ?case unfolding ms_Group_mem by fastforce
qed (auto split: list.splits if_splits)

lemma ms_nogroups:
  assumes "(c', s') \<in> set (ms r (c, s))" "groups r = {}" shows "c' = c"
proof (rule nth_equalityI)
  show "length c' = length c" using assms(1) by (rule ms_length)
  fix i show "c' ! i = c ! i" using ms_frame[OF assms(1)] assms(2) by simp
qed

lemma ms_caps_irrelevant:
  "(c1, s1) \<in> set (ms r (c, s)) \<Longrightarrow> \<exists>c1'. (c1', s1) \<in> set (ms r (c', s))"
proof (induction r arbitrary: c s c1 s1 c')
  case (Seq a b)
  from Seq.prems obtain c2 s2 where 1: "(c2, s2) \<in> set (ms a (c, s))"
    and 2: "(c1, s1) \<in> set (ms b (c2, s2))" unfolding ms_Seq_mem by blast
  from Seq.IH(1)[OF 1] obtain c2' where 3: "(c2', s2) \<in> set (ms a (c', s))" by blast
  from Seq.IH(2)[OF 2] obtain c1' where "(c1', s1) \<in> set (ms b (c2', s2))" by blast
  with 3 show ?case unfolding ms_Seq_mem by blast
next
  case (Group n r)
  then show ?case unfolding ms_Group_mem by blast
next
  case (Alt a b)
  then show ?case by (metis Un_iff ms.simps(4) set_append)
next
  case (Opt a)
  then show ?case by fastforce
qed (auto split: list.splits if_splits)


lemma match_here_Some:
  "match_here re s = Some (m, rest) \<Longrightarrow>
     \<exists>c. (c, rest) \<in> set (ms re (replicate (Suc (ngroups re)) None, s)) \<and>
         m = c[0 := Some (take (length s - length rest) s)]"
  by (auto simp: match_here_def split: list.splits)

lemma match_here_None:
  "match_here re s = None \<longleftrightarrow> ms re (replicate (Suc (ngroups re)) None, s) = []"
  by (auto simp: match_here_def split: list.splits)

lemma search_Some:
  "search re s = Some r \<Longrightarrow> \<exists>t. suffix t s \<and> match_here re t = Some r"
proof (induction s)
  case Nil
  then show ?case by auto
next
  case (Cons a s)
  show ?case
  proof (cases "match_here re (a # s)")
    case None
    with Cons obtain t where "suffix t s" "match_here re t = Some r" by auto
    then show ?thesis by (auto simp: suffix_Cons)
  next
    case (Some m)
    with Cons.prems have "match_here re (a # s) = Some r" by simp
    then show ?thesis by blast
  qed
qed

lemma search_None:
  "search re s = None \<longleftrightarrow> (\<forall>t. suffix t s \<longrightarrow> match_here re t = None)"
  by (induction s) (auto simp: suffix_Cons split: option.splits)

lemma FindAllSubmatch_Nil: "FindAllSubmatch re s = [] \<longleftrightarrow> search re s = None"
  by (subst FindAllSubmatch.simps) (auto split: option.splits)

lemma FindAllSubmatch_Cons:
  "FindAllSubmatch re s = m # others \<Longrightarrow> \<exists>rest. search re s = Some (m, rest)"
  by (subst (asm) FindAllSubmatch.simps) (auto split: option.splits if_splits)

lemma ngroups_strict: "ngroups re_strict = 4"
  by (simp add: re_strict_def propBaseRegexp_def)

lemma ngroups_loose: "ngroups re_loose = 3"
  by (simp add: re_loose_def propBaseRegexp_def)

lemma propBase_anatomy:
  assumes "(c', s') \<in> set (ms propBaseRegexp (c, s))"
  shows "\<exists>ty name. c' = c[1 := Some ty, 2 := Some name] \<and> nl \<notin> set name \<and> (\<exists>t. s = t @ s')"
proof -
  let ?T = "(Alt (Lit ''bool'') (Alt (Lit ''boolean'') (Alt (Lit ''byte'') (Alt (Lit ''string'')
            (Alt (Lit ''int16'') (Alt (Lit ''uint16'') (Alt (Lit ''uint16_t'') (Alt (Lit ''uint32'')
            (Alt (Lit ''dict'') (Alt (Lit ''object'')
            (Seq (Lit ''array{'') (Star Dot Lazy))))))))))))"
  let ?N = "Seq (Chars (Range CHR ''A'' CHR ''Z'')) (Plus Dot Lazy)"
  from assms obtain ca sa cb sb where
    1: "(ca, sa) \<in> set (ms (Group 1 ?T) (c, s))" and
    2: "(cb, sb) \<in> set (ms (Lit '' '') (ca, sa))" and
    3: "(c', s') \<in> set (ms (Group 2 ?N) (cb, sb))"
    unfolding propBaseRegexp_def ms_Seq_mem by blast
  from 1 obtain cx ty where cx: "(cx, sa) \<in> set (ms ?T (c, s))" and ca: "ca = cx[1 := Some ty]"
    unfolding ms_Group_mem by blast
  have "cx = c" using cx by (rule ms_nogroups) simp
  have "cb = ca" using 2 by (rule ms_nogroups) simp
  from 3 obtain cy where cy: "(cy, s') \<in> set (ms ?N (cb, sb))"
    and c': "c' = cy[2 := Some (take (length sb - length s') sb)]"
    unfolding ms_Group_mem by blast
  have "cy = cb" using cy by (rule ms_nogroups) simp
  from ms_text[OF cy] obtain t where t: "sb = t @ s'" "\<forall>x\<in>set t. consumes ?N x" by blast
  have "nl \<notin> set t" using t(2) by auto
  moreover have "take (length sb - length s') sb = t" using t(1) by simp
  moreover from ms_text[OF 1] ms_text[OF 2] t(1) have "\<exists>u. s = u @ s'"
    by (metis append.assoc)
  ultimately show ?thesis using c' ca \<open>cx = c\<close> \<open>cb = ca\<close> \<open>cy = cb\<close> by auto
qed

lemma ms_SeqE:
  assumes "(c', s') \<in> set (ms (Seq a b) (c, s))"
  obtains c1 s1 where "(c1, s1) \<in> set (ms a (c, s))" "(c', s') \<in> set (ms b (c1, s1))"
  using assms unfolding ms_Seq_mem by blast

lemma ms_GroupE:
  assumes "(c', s') \<in> set (ms (Group n r) (c, s))"
  obtains c1 where "(c1, s') \<in> set (ms r (c, s))"
    "c' = c1[n := Some (take (length s - length s') s)]"
  using assms unfolding ms_Group_mem by blast

lemma strict_anatomy:
  assumes "(c', s') \<in> set (ms re_strict (replicate 5 None, s))"
  shows "\<exists>ty name g3 docs. c' = [None, Some ty, Some name, g3, Some docs] \<and>
           nl \<notin> set name \<and> (g3 \<noteq> None \<longrightarrow> CHR ''['' \<in> set s)"
proof -
  let ?c0 = "replicate 5 (None :: string option)"
  let ?W = "Star (OneOf [CHR '' '', tab]) Lazy"
  let ?G = "Seq (Lit '' ['') (Seq (Star (NoneOf '']'') Greedy) (Seq (Lit '']'') (Star Dot Greedy)))"
  let ?D = "Group 4 (Plus DotAll Greedy)"
  from assms obtain c1 s1 where 1: "(c1, s1) \<in> set (ms ?W (?c0, s))"
    and r1: "(c', s') \<in> set (ms (Seq propBaseRegexp (Seq (Opt (Group 3 ?G)) (Seq (Lit [nl]) ?D))) (c1, s1))"
    unfolding re_strict_def by (rule ms_SeqE)
  from r1 obtain c2 s2 where 2: "(c2, s2) \<in> set (ms propBaseRegexp (c1, s1))"
    and r2: "(c', s') \<in> set (ms (Seq (Opt (Group 3 ?G)) (Seq (Lit [nl]) ?D)) (c2, s2))"
    by (rule ms_SeqE)
  from r2 obtain c3 s3 where 3: "(c3, s3) \<in> set (ms (Opt (Group 3 ?G)) (c2, s2))"
    and r3: "(c', s') \<in> set (ms (Seq (Lit [nl]) ?D) (c3, s3))"
    by (rule ms_SeqE)
  from r3 obtain c4 s4 where 4: "(c4, s4) \<in> set (ms (Lit [nl]) (c3, s3))"
    and 5: "(c', s') \<in> set (ms ?D (c4, s4))"
    by (rule ms_SeqE)
  have c1: "c1 = ?c0" using 1 by (rule ms_nogroups) simp
  from propBase_anatomy[OF 2] obtain ty name t where
    c2: "c2 = c1[1 := Some ty, 2 := Some name]" and name: "nl \<notin> set name" and "s1 = t @ s2"
    by blast
  moreover from ms_text[OF 1] obtain t0 where "s = t0 @ s1" by blast
  ultimately have s2: "set s2 \<subseteq> set s" by auto
  have c2': "c2 = [None, Some ty, Some name, None, None]"
    unfolding c2 c1 by (simp add: numeral_eq_Suc)
  have "\<exists>g3. c3 = [None, Some ty, Some name, g3, None] \<and> (g3 \<noteq> None \<longrightarrow> CHR ''['' \<in> set s)"
  proof (cases "(c3, s3) \<in> set (ms (Group 3 ?G) (c2, s2))")
    case True
    then obtain cz where cz: "(cz, s3) \<in> set (ms ?G (c2, s2))"
      and c3: "c3 = cz[3 := Some (take (length s2 - length s3) s2)]"
      by (rule ms_GroupE)
    have "cz = c2" using cz by (rule ms_nogroups) simp
    from cz obtain cu su where "(cu, su) \<in> set (ms (Lit '' ['') (c2, s2))" by (rule ms_SeqE)
    then have "prefix '' ['' s2" by (simp split: if_splits)
    then have "CHR ''['' \<in> set s2" by (auto simp: prefix_def)
    with s2 have "CHR ''['' \<in> set s" by blast
    moreover have "c3 = [None, Some ty, Some name, Some (take (length s2 - length s3) s2), None]"
      unfolding c3 \<open>cz = c2\<close> c2' by (simp add: numeral_eq_Suc)
    ultimately show ?thesis by blast
  next
    case False
    with 3 have "c3 = c2" by simp
    with c2' show ?thesis by blast
  qed
  then obtain g3 where c3: "c3 = [None, Some ty, Some name, g3, None]"
    and g3: "g3 \<noteq> None \<longrightarrow> CHR ''['' \<in> set s" by blast
  have c4: "c4 = c3" using 4 by (rule ms_nogroups) simp
  from 5 obtain cw where cw: "(cw, s') \<in> set (ms (Plus DotAll Greedy) (c4, s4))"
    and c': "c' = cw[4 := Some (take (length s4 - length s') s4)]"
    by (rule ms_GroupE)
  have "cw = c4" using cw by (rule ms_nogroups) simp
  have "c' = [None, Some ty, Some name, g3, Some (take (length s4 - length s') s4)]"
    unfolding c' \<open>cw = c4\<close> c4 c3 by (simp add: numeral_eq_Suc)
  with name g3 show ?thesis by blast
qed

lemma loose_imp_strict:
  assumes "ms re_loose (c, s) \<noteq> []" shows "ms re_strict (c', s) \<noteq> []"
proof -
  let ?W = "Star (OneOf [CHR '' '', tab]) Lazy"
  let ?G = "Seq (Lit '' ['') (Seq (Star (NoneOf '']'') Greedy) (Seq (Lit '']'') (Star Dot Greedy)))"
  from assms obtain cr sr where "(cr, sr) \<in> set (ms re_loose (c, s))"
    by (cases "ms re_loose (c, s)") auto
  then obtain c1 s1 c2 s2 c3 s3 where
    1: "(c1, s1) \<in> set (ms ?W (c, s))" and
    2: "(c2, s2) \<in> set (ms propBaseRegexp (c1, s1))" and
    3: "(c3, s3) \<in> set (ms (Lit [nl]) (c2, s2))" and
    4: "(cr, sr) \<in> set (ms (Group 3 (Plus DotAll Greedy)) (c3, s3))"
    unfolding re_loose_def ms_Seq_mem by blast
  from ms_caps_irrelevant[OF 1] obtain d1 where d1: "(d1, s1) \<in> set (ms ?W (c', s))" by blast
  from ms_caps_irrelevant[OF 2] obtain d2 where d2: "(d2, s2) \<in> set (ms propBaseRegexp (d1, s1))" by blast
  have d2': "(d2, s2) \<in> set (ms (Opt (Group 3 ?G)) (d2, s2))" by simp
  from ms_caps_irrelevant[OF 3] obtain d3 where d3: "(d3, s3) \<in> set (ms (Lit [nl]) (d2, s2))" by blast
  from 4 obtain cq where "(cq, sr) \<in> set (ms (Plus DotAll Greedy) (c3, s3))"
    unfolding ms_Group_mem by blast
  from ms_caps_irrelevant[OF this] obtain dq where "(dq, sr) \<in> set (ms (Plus DotAll Greedy) (d3, s3))" by blast
  then have "\<exists>d4. (d4, sr) \<in> set (ms (Group 4 (Plus DotAll Greedy)) (d3, s3))"
    unfolding ms_Group_mem by blast
  with d1 d2 d2' d3 have "\<exists>d4. (d4, sr) \<in> set (ms re_strict (c', s))"
    unfolding re_strict_def ms_Seq_mem by blast
  then show ?thesis by auto
qed

lemma strict_Nil_loose_Nil:
  "FindAllSubmatch re_strict raw = [] \<Longrightarrow> FindAllSubmatch re_loose raw = []"
  unfolding FindAllSubmatch_Nil search_None match_here_None
  using loose_imp_strict by blast

lemma strict_match_shape:
  assumes "FindAllSubmatch re_strict raw = m # others"
  shows "\<exists>whole ty name g3 docs. m = [Some whole, Some ty, Some name, g3, Some docs] \<and>
           nl \<notin> set name \<and> (g3 \<noteq> None \<longrightarrow> CHR ''['' \<in> set raw)"
proof -
  from FindAllSubmatch_Cons[OF assms] obtain rest where "search re_strict raw = Some (m, rest)" by blast
  from search_Some[OF this] obtain t where t: "suffix t raw" "match_here re_strict t = Some (m, rest)"
    by blast
  from match_here_Some[OF t(2)] obtain c where
    c: "(c, rest) \<in> set (ms re_strict (replicate 5 None, t))"
    and m: "m = c[0 := Some (take (length t - length rest) t)]"
    by (auto simp: ngroups_strict numeral_eq_Suc)
  from strict_anatomy[OF c] obtain ty name g3 docs where
    "c = [None, Some ty, Some name, g3, Some docs]" "nl \<notin> set name"
    "g3 \<noteq> None \<longrightarrow> CHR ''['' \<in> set t" by blast
  moreover have "set t \<subseteq> set raw" using t(1) by (auto simp: suffix_def)
  ultimately show ?thesis using m by auto
qed

lemma matches2_strict: "matches2 raw = FindAllSubmatch re_strict raw"
proof (cases "FindAllSubmatch re_strict raw")
  case Nil
  then show ?thesis by (simp add: matches2_def strict_Nil_loose_Nil)
next
  case (Cons m others)
  from strict_match_shape[OF this] have "length m = 5" by auto
  with Cons show ?thesis by (simp add: matches2_def)
qed




section \<open>Lemmas: what \<open>Parse\<close> returns\<close>

lemma flags_loop_acc:
  "flags_loop fs acc =
     acc @ concat (map (\<lambda>f. case switch_flag (cut_bracket f) of None \<Rightarrow> [] | Some fl \<Rightarrow> [fl]) fs)"
  by (induction fs arbitrary: acc) (auto split: option.splits)

lemma Parse_no_match:
  assumes "matches2 raw = []"
  shows "Parse g raw h = Inr (model g, Some (Error ''No property found''), h)"
  using assms by (simp add: Parse_def)

lemma Parse_match:
  assumes "matches2 raw = m # others" and "model g < length h"
  shows "\<exists>whole ty name g3 docs.
           m = [Some whole, Some ty, Some name, g3, Some docs] \<and> nl \<notin> set name \<and>
           (g3 \<noteq> None \<longrightarrow> CHR ''['' \<in> set raw) \<and>
           Parse g raw h = Inr (model g, None, list_update h (model g)
             \<lparr>Type = ty,
              Name = Replace (if Contains name ''optional''
                              then Replace name '' (optional)'' [] else name)
                       [CHR '' '', tab, nl] [],
              Flags = flags_loop (Split (Trim (case g3 of None \<Rightarrow> [] | Some t \<Rightarrow> t) ''[] '')
                                   CHR '','') [],
              Docs = (if Contains name ''optional''
                      then ''(optional) '' @ Trim (Replace docs [CHR '' '', tab, nl] []) [CHR '' '', tab, nl]
                      else Trim (Replace docs [CHR '' '', tab, nl] []) [CHR '' '', tab, nl])\<rparr>)"
proof -
  from assms(1) have "FindAllSubmatch re_strict raw = m # others" by (simp add: matches2_strict)
  from strict_match_shape[OF this] obtain whole ty name g3 docs where
    m: "m = [Some whole, Some ty, Some name, g3, Some docs]" and n: "nl \<notin> set name"
    and g: "g3 \<noteq> None \<longrightarrow> CHR ''['' \<in> set raw" by blast
  have "Parse g raw h = Inr (model g, None, list_update h (model g)
             \<lparr>Type = ty,
              Name = Replace (if Contains name ''optional''
                              then Replace name '' (optional)'' [] else name)
                       [CHR '' '', tab, nl] [],
              Flags = flags_loop (Split (Trim (case g3 of None \<Rightarrow> [] | Some t \<Rightarrow> t) ''[] '')
                                   CHR '','') [],
              Docs = (if Contains name ''optional''
                      then ''(optional) '' @ Trim (Replace docs [CHR '' '', tab, nl] []) [CHR '' '', tab, nl]
                      else Trim (Replace docs [CHR '' '', tab, nl] []) [CHR '' '', tab, nl])\<rparr>)"
    unfolding Parse_def assms(1) m using assms(2)
    by (simp add: at_str_def Let_def)
  with m n g show ?thesis by blast
qed

lemma Parse_Inr_ptr:
  assumes "Parse g raw h = Inr (p, e, h')"
  shows "p = model g"
  using assms unfolding Parse_def
  by (auto simp: Let_def split: list.splits sum.splits if_splits)

lemma Parse_error_iff:
  assumes "Parse g raw h = Inr (p, Some e, h')"
  shows "matches2 raw = [] \<and> h' = h \<and> e = Error ''No property found''"
  using assms unfolding Parse_def
  by (auto simp: Let_def split: list.splits sum.splits if_splits)

lemma Parse_ok_valid:
  assumes "Parse g raw h = Inr (p, None, h')"
  shows "matches2 raw \<noteq> [] \<and> model g < length h"
  using assms unfolding Parse_def
  by (auto simp: Let_def split: list.splits sum.splits if_splits)

lemma switch_flag_iff:
  "switch_flag x = Some FlagReadOnly \<longleftrightarrow> x = ''readonly''"
  "switch_flag x = Some FlagReadWrite \<longleftrightarrow> x = ''readwrite''"
  "switch_flag x = Some FlagExperimental \<longleftrightarrow> x = ''experimental''"
  by (auto simp: switch_flag_def)

lemma flags_loop_set:
  "fl \<in> set (flags_loop fs []) \<longleftrightarrow> (\<exists>f\<in>set fs. switch_flag (cut_bracket f) = Some fl)"
  unfolding flags_loop_acc by (force split: option.splits)

lemma Contains_char: "Contains f [c] \<longleftrightarrow> c \<in> set f"
  by (induction f) auto

lemma hd_Split: "hd (Split f c) = takeWhile (\<lambda>x. x \<noteq> c) f"
  by (induction f) (auto split: list.splits simp: Split_nonempty)

lemma cut_bracket_takeWhile: "cut_bracket f = takeWhile (\<lambda>x. x \<noteq> CHR '']'') f"
proof (cases "CHR '']'' \<in> set f")
  case True
  then show ?thesis by (simp add: cut_bracket_def Contains_char hd_Split)
next
  case False
  then have c: "cut_bracket f = f" by (simp add: cut_bracket_def Contains_char)
  from False have "takeWhile (\<lambda>x. x \<noteq> CHR '']'') f = f" by (induction f) auto
  then show ?thesis unfolding c by (rule sym)
qed

lemma Parse_ok_shape:
  assumes "Parse g raw h = Inr (p, None, h')"
  shows "\<exists>m others whole ty name g3 docs.
           matches2 raw = m # others \<and> p = model g \<and> model g < length h \<and>
           m = [Some whole, Some ty, Some name, g3, Some docs] \<and> nl \<notin> set name \<and>
           (g3 \<noteq> None \<longrightarrow> CHR ''['' \<in> set raw) \<and>
           h' ! p =
             \<lparr>Type = ty,
              Name = Replace (if Contains name ''optional''
                              then Replace name '' (optional)'' [] else name)
                       [CHR '' '', tab, nl] [],
              Flags = flags_loop (Split (Trim (case g3 of None \<Rightarrow> [] | Some t \<Rightarrow> t) ''[] '')
                                   CHR '','') [],
              Docs = (if Contains name ''optional''
                      then ''(optional) '' @ Trim (Replace docs [CHR '' '', tab, nl] []) [CHR '' '', tab, nl]
                      else Trim (Replace docs [CHR '' '', tab, nl] []) [CHR '' '', tab, nl])\<rparr>"
proof -
  from Parse_ok_valid[OF assms] obtain m others where
    m: "matches2 raw = m # others" and v: "model g < length h"
    by (cases "matches2 raw") auto
  from Parse_match[OF m v] obtain whole ty name g3 docs where
    s: "m = [Some whole, Some ty, Some name, g3, Some docs]" "nl \<notin> set name"
       "g3 \<noteq> None \<longrightarrow> CHR ''['' \<in> set raw"
    and P: "Parse g raw h = Inr (model g, None, list_update h (model g)
             \<lparr>Type = ty,
              Name = Replace (if Contains name ''optional''
                              then Replace name '' (optional)'' [] else name)
                       [CHR '' '', tab, nl] [],
              Flags = flags_loop (Split (Trim (case g3 of None \<Rightarrow> [] | Some t \<Rightarrow> t) ''[] '')
                                   CHR '','') [],
              Docs = (if Contains name ''optional''
                      then ''(optional) '' @ Trim (Replace docs [CHR '' '', tab, nl] []) [CHR '' '', tab, nl]
                      else Trim (Replace docs [CHR '' '', tab, nl] []) [CHR '' '', tab, nl])\<rparr>)"
    by blast
  from P assms have "p = model g" and "h' = list_update h (model g)
             \<lparr>Type = ty,
              Name = Replace (if Contains name ''optional''
                              then Replace name '' (optional)'' [] else name)
                       [CHR '' '', tab, nl] [],
              Flags = flags_loop (Split (Trim (case g3 of None \<Rightarrow> [] | Some t \<Rightarrow> t) ''[] '')
                                   CHR '','') [],
              Docs = (if Contains name ''optional''
                      then ''(optional) '' @ Trim (Replace docs [CHR '' '', tab, nl] []) [CHR '' '', tab, nl]
                      else Trim (Replace docs [CHR '' '', tab, nl] []) [CHR '' '', tab, nl])\<rparr>"
    by simp_all
  with v m s show ?thesis by (simp del: Property.simps)
qed

lemma Parse_result_heap_independent:
  assumes "Parse g raw h = Inr (p, None, h')" and "Parse g raw k = Inr (q, None, k')"
  shows "q = p \<and> k' ! q = h' ! p"
proof -
  define R where "R = (\<lambda>ty name g3 docs.
             \<lparr>Type = ty,
              Name = Replace (if Contains name ''optional''
                              then Replace name '' (optional)'' [] else name)
                       [CHR '' '', tab, nl] [],
              Flags = flags_loop (Split (Trim (case g3 of None \<Rightarrow> [] | Some t \<Rightarrow> t) ''[] '')
                                   CHR '','') [],
              Docs = (if Contains name ''optional''
                      then ''(optional) '' @ Trim (Replace docs [CHR '' '', tab, nl] []) [CHR '' '', tab, nl]
                      else Trim (Replace docs [CHR '' '', tab, nl] []) [CHR '' '', tab, nl])\<rparr>)"
  from assms(1) have v: "model g < length h" and ne: "matches2 raw \<noteq> []"
    using Parse_ok_valid by blast+
  from assms(2) have w: "model g < length k" using Parse_ok_valid by blast
  from ne obtain m others where m2: "matches2 raw = m # others" by (cases "matches2 raw") auto
  from Parse_match[OF m2 v] obtain whole ty name g3 docs where
    m: "m = [Some whole, Some ty, Some name, g3, Some docs]" and
    1: "Parse g raw h = Inr (model g, None, list_update h (model g) (R ty name g3 docs))"
    unfolding R_def by blast
  from Parse_match[OF m2 w] obtain whole' ty' name' g3' docs' where
    m': "m = [Some whole', Some ty', Some name', g3', Some docs']" and
    2: "Parse g raw k = Inr (model g, None, list_update k (model g) (R ty' name' g3' docs'))"
    unfolding R_def by blast
  from m m' have eq: "ty' = ty" "name' = name" "g3' = g3" "docs' = docs" by simp_all
  from 1 assms(1) have a: "p = model g" "h' = list_update h (model g) (R ty name g3 docs)"
    by simp_all
  from 2 assms(2) have b: "q = model g" "k' = list_update k (model g) (R ty name g3 docs)"
    unfolding eq by simp_all
  show ?thesis unfolding a b using v w by simp
qed



section \<open>Lemmas: the marshaller and the generator\<close>

lemma kind_of_zero_of: "kind_of (zero_of k) = k"
  by (cases k) simp_all

lemma convert_same_kind: "kind_of v = k \<Longrightarrow> convert k v = Some v"
  by (cases v) auto

lemma assign_skip_prefix:
  "k \<notin> fname ` set pre \<Longrightarrow>
   assign (pre @ fs) k v = (case assign fs k v of Inl e \<Rightarrow> Inl e | Inr fs' \<Rightarrow> Inr (pre @ fs'))"
  by (induction pre) (auto split: sum.splits)

lemma assign_all_restores:
  "distinct (map fname (pre @ post)) \<Longrightarrow>
   assign_all (pre @ fresh post) (map (\<lambda>f. (fname f, fvalue f)) post) = Inr (pre @ post)"
proof (induction post arbitrary: pre)
  case Nil
  then show ?case by (simp add: fresh_def)
next
  case (Cons f post)
  from Cons.prems have nf: "fname f \<notin> fname ` set pre" by auto
  have "assign (fresh (f # post)) (fname f) (fvalue f) = Inr (f # fresh post)"
    by (simp add: fresh_def kind_of_zero_of convert_same_kind)
  with nf have "assign (pre @ fresh (f # post)) (fname f) (fvalue f) = Inr (pre @ f # fresh post)"
    by (simp add: assign_skip_prefix)
  moreover from Cons.prems have "distinct (map fname ((pre @ [f]) @ post))" by simp
  from Cons.IH[OF this]
  have "assign_all (pre @ f # fresh post) (map (\<lambda>f. (fname f, fvalue f)) post) = Inr (pre @ f # post)"
    by simp
  ultimately show ?case by simp
qed

lemma Generate_writes:
  "\<exists>w e. \<forall>fs. Generate render path_of models root fs = (fs ++ w, e)"
proof (induction models)
  case Nil
  have "\<forall>fs. Generate render path_of [] root fs = (fs ++ Map.empty, None)" by simp
  then show ?case by blast
next
  case (Cons m models)
  then obtain w e where IH: "\<And>fs. Generate render path_of models root fs = (fs ++ w, e)" by blast
  show ?case
  proof (cases "render m")
    case (Inl err)
    then have "\<forall>fs. Generate render path_of (m # models) root fs = (fs ++ Map.empty, Some err)" by simp
    then show ?thesis by blast
  next
    case (Inr content)
    have "\<forall>fs. Generate render path_of (m # models) root fs =
            (fs ++ ([path_of root (InterfaceName m) \<mapsto> content] ++ w), e)"
    proof
      fix fs :: filetree
      have "fs(path_of root (InterfaceName m) \<mapsto> content) ++ w =
            fs ++ ([path_of root (InterfaceName m) \<mapsto> content] ++ w)"
        by (rule ext) (simp add: map_add_def split: option.splits)
      with Inr IH show "Generate render path_of (m # models) root fs =
            (fs ++ ([path_of root (InterfaceName m) \<mapsto> content] ++ w), e)" by simp
    qed
    then show ?thesis by blast
  qed
qed

section \<open>Concrete runs\<close>

text \<open>
  Runs of the model on small blocks, evaluated with the code equations. The parser is the
  one \<open>NewPropertyParser\<close> builds on an empty heap.
\<close>

lemma eval_new: "NewPropertyParser False [] =
   (\<lparr>model = 0, debug = False\<rparr>, [\<lparr>Type = [], Name = [], Flags = [], Docs = []\<rparr>])"
  by (simp add: NewPropertyParser_def new_Property_def)

lemma eval_no_match_strict: "FindAllSubmatch re_strict ''x'' = []"
  by code_simp

lemma eval_no_match_loose: "FindAllSubmatch re_loose ''x'' = []"
  by code_simp

lemma eval_plain_strict:
  "FindAllSubmatch re_strict (''bool Ab\<newline>x'') =
     [[Some (''bool Ab\<newline>x''), Some ''bool'', Some ''Ab'', None, Some ''x'']]"
  by code_simp


lemma eval_plain_parse:
  "Parse \<lparr>model = 0, debug = False\<rparr> ''bool Ab\<newline> x ''
     [\<lparr>Type = [], Name = [], Flags = [], Docs = []\<rparr>] =
   Inr (0, None, [\<lparr>Type = ''bool'', Name = ''Ab'', Flags = [], Docs = ''x''\<rparr>])"
  by code_simp

lemma eval_plain_parse2:
  "Parse \<lparr>model = 0, debug = False\<rparr> ''bool Ab\<newline>x''
     [\<lparr>Type = [], Name = [], Flags = [], Docs = []\<rparr>] =
   Inr (0, None, [\<lparr>Type = ''bool'', Name = ''Ab'', Flags = [], Docs = ''x''\<rparr>])"
  by code_simp

lemma eval_readwrite:
  "Parse \<lparr>model = 0, debug = False\<rparr> ''string Foo [readwrite]\<newline>x''
     [\<lparr>Type = [], Name = [], Flags = [], Docs = []\<rparr>] =
   Inr (0, None,
        [\<lparr>Type = ''string'', Name = ''Foo'', Flags = [FlagReadWrite], Docs = ''x''\<rparr>])"
  by code_simp

lemma eval_overwrite:
  "Parse \<lparr>model = 0, debug = False\<rparr> ''bool Ab\<newline>x''
     [\<lparr>Type = ''string'', Name = ''Foo'', Flags = [FlagReadWrite], Docs = ''x''\<rparr>] =
   Inr (0, None, [\<lparr>Type = ''bool'', Name = ''Ab'', Flags = [], Docs = ''x''\<rparr>])"
  by code_simp

lemma eval_fail_after:
  "Parse \<lparr>model = 0, debug = False\<rparr> ''x''
     [\<lparr>Type = ''string'', Name = ''Foo'', Flags = [FlagReadWrite], Docs = ''x''\<rparr>] =
   Inr (0, Some (Error ''No property found''),
        [\<lparr>Type = ''string'', Name = ''Foo'', Flags = [FlagReadWrite], Docs = ''x''\<rparr>])"
  by code_simp

lemma eval_handle_matches2:
  "matches2 ''uint16 Handle (optional) [readonly]\<newline>  The handle.\<newline>'' =
     [[Some ''uint16 Handle (optional) [readonly]\<newline>  The handle.\<newline>'', Some ''uint16'',
       Some ''Handle (optional)'', Some '' [readonly]'', Some ''  The handle.\<newline>'']]"
  by code_simp



lemma eval_server_only_matches2:
  "matches2 ''string Foo [bogus,readonly] (Server Only)\<newline>x'' =
     [[Some ''string Foo [bogus,readonly] (Server Only)\<newline>x'', Some ''string'',
       Some ''Foo'', Some '' [bogus,readonly] (Server Only)'', Some ''x'']]"
  by code_simp

section \<open>The claims\<close>

text \<open>
  C1, as stated, fails. The block \<^verbatim>\<open>string Foo [readonly,readwrite]\<close> with the docs line
  \<^verbatim>\<open>x\<close> is accepted, and its \<open>Flags\<close> hold both \<open>FlagReadOnly\<close> and \<open>FlagReadWrite\<close>:
  the flag loop appends one flag per recognised fragment and nothing excludes one flag
  when the other is present.
\<close>

theorem readonly_and_readwrite_together_counterexample:
  "Parse \<lparr>model = 0, debug = False\<rparr> ''string Foo [readonly,readwrite]\<newline>x''
     [\<lparr>Type = [], Name = [], Flags = [], Docs = []\<rparr>] =
   Inr (0, None,
        [\<lparr>Type = ''string'', Name = ''Foo'', Flags = [FlagReadOnly, FlagReadWrite], Docs = ''x''\<rparr>])"
  by code_simp

text \<open>
  C1, amended. For every block \<open>Parse\<close> accepts, \<open>Flags\<close> holds \<open>FlagReadOnly\<close> exactly
  when one comma-separated fragment of the bracketed flag text (cut at its first \<open>]\<close>) is
  \<open>readonly\<close>, and \<open>FlagReadWrite\<close> exactly when one is \<open>readwrite\<close>. So the two come
  together only when the list names both; the flag text \<^verbatim>\<open> [readonly]\<close> gives exactly
  \<open>[FlagReadOnly]\<close> and \<^verbatim>\<open> [readwrite]\<close> exactly \<open>[FlagReadWrite]\<close>.
\<close>

theorem flags_follow_the_bracket_tokens:
  assumes "Parse g raw h = Inr (p, None, h')"
  shows "\<exists>m others flagListRaw.
           matches2 raw = m # others \<and> at_str m 3 = Inr flagListRaw \<and>
           (FlagReadOnly \<in> set (Flags (h' ! p)) \<longleftrightarrow>
              ''readonly'' \<in> cut_bracket ` set (Split (Trim flagListRaw ''[] '') CHR '','')) \<and>
           (FlagReadWrite \<in> set (Flags (h' ! p)) \<longleftrightarrow>
              ''readwrite'' \<in> cut_bracket ` set (Split (Trim flagListRaw ''[] '') CHR '','')) \<and>
           (flagListRaw = '' [readonly]'' \<longrightarrow> Flags (h' ! p) = [FlagReadOnly]) \<and>
           (flagListRaw = '' [readwrite]'' \<longrightarrow> Flags (h' ! p) = [FlagReadWrite])"
proof -
  from Parse_ok_shape[OF assms] obtain m others whole ty name g3 docs where
    m2: "matches2 raw = m # others" and
    m: "m = [Some whole, Some ty, Some name, g3, Some docs]" and
    F: "Flags (h' ! p) =
          flags_loop (Split (Trim (case g3 of None \<Rightarrow> [] | Some t \<Rightarrow> t) ''[] '') CHR '','') []"
    by fastforce
  define fl where "fl = (case g3 of None \<Rightarrow> [] | Some t \<Rightarrow> t)"
  have a: "at_str m 3 = Inr fl" by (simp add: m at_str_def fl_def)
  have F': "Flags (h' ! p) = flags_loop (Split (Trim fl ''[] '') CHR '','') []"
    using F by (simp add: fl_def)
  have ro: "FlagReadOnly \<in> set (Flags (h' ! p)) \<longleftrightarrow>
              ''readonly'' \<in> cut_bracket ` set (Split (Trim fl ''[] '') CHR '','')"
    unfolding F' flags_loop_set switch_flag_iff by force
  have rw: "FlagReadWrite \<in> set (Flags (h' ! p)) \<longleftrightarrow>
              ''readwrite'' \<in> cut_bracket ` set (Split (Trim fl ''[] '') CHR '','')"
    unfolding F' flags_loop_set switch_flag_iff by force
  have e1: "flags_loop (Split (Trim '' [readonly]'' ''[] '') CHR '','') [] = [FlagReadOnly]"
    by code_simp
  have e2: "flags_loop (Split (Trim '' [readwrite]'' ''[] '') CHR '','') [] = [FlagReadWrite]"
    by code_simp
  from e1 e2 F' have "(fl = '' [readonly]'' \<longrightarrow> Flags (h' ! p) = [FlagReadOnly]) \<and>
           (fl = '' [readwrite]'' \<longrightarrow> Flags (h' ! p) = [FlagReadWrite])" by metis
  with m2 a ro rw show ?thesis by blast
qed

theorem flags_follow_the_bracket_tokens_witness:
  "Parse \<lparr>model = 0, debug = False\<rparr> ''string Foo [readwrite]\<newline>x''
     [\<lparr>Type = [], Name = [], Flags = [], Docs = []\<rparr>] =
   Inr (0, None,
        [\<lparr>Type = ''string'', Name = ''Foo'', Flags = [FlagReadWrite], Docs = ''x''\<rparr>]) \<and>
   (\<exists>m others flagListRaw.
      matches2 ''string Foo [readwrite]\<newline>x'' = m # others \<and> at_str m 3 = Inr flagListRaw \<and>
      FlagReadOnly \<notin> set (Flags ([\<lparr>Type = ''string'', Name = ''Foo'', Flags = [FlagReadWrite], Docs = ''x''\<rparr>] ! 0)) \<and>
      ''readonly'' \<notin> cut_bracket ` set (Split (Trim flagListRaw ''[] '') CHR '',''))"
proof -
  note e = eval_readwrite
  from flags_follow_the_bracket_tokens[OF e] obtain m others flagListRaw where
    "matches2 ''string Foo [readwrite]\<newline>x'' = m # others" "at_str m 3 = Inr flagListRaw"
    "FlagReadOnly \<in> set (Flags ([\<lparr>Type = ''string'', Name = ''Foo'', Flags = [FlagReadWrite], Docs = ''x''\<rparr>] ! 0)) \<longleftrightarrow>
              ''readonly'' \<in> cut_bracket ` set (Split (Trim flagListRaw ''[] '') CHR '','')"
    by blast
  moreover have "FlagReadOnly \<notin> set (Flags ([\<lparr>Type = ''string'', Name = ''Foo'', Flags = [FlagReadWrite], Docs = ''x''\<rparr>] ! 0))"
    by simp
  ultimately show ?thesis using e by blast
qed

text \<open>
  C2. Round trip of the marshaller: for a record with distinct field names none of whose
  fields is excluded (no \<open>Skip\<close>, no \<open>SkipIfFlag\<close> naming a true sibling, no \<open>OmitIfEmpty\<close>
  on a zero value), \<open>FromMap\<close> applied to \<open>ToMap\<close> of the record gives the record back,
  every field value as it was.
\<close>

theorem FromMap_ToMap_roundtrip:
  assumes "distinct (map fname r)" and "\<forall>f \<in> set r. \<not> excluded r f"
  shows "FromMap r (ToMap r) = Inr r"
proof -
  from assms(2) have "filter (\<lambda>f. \<not> excluded r f) r = r" by (simp add: filter_id_conv)
  then have "ToMap r = map (\<lambda>f. (fname f, fvalue f)) r" by (simp add: ToMap_def)
  moreover from assms(1) have "distinct (map fname ([] @ r))" by simp
  from assign_all_restores[OF this]
  have "assign_all (fresh r) (map (\<lambda>f. (fname f, fvalue f)) r) = Inr r" by simp
  ultimately show ?thesis by (simp add: FromMap_def)
qed

theorem FromMap_ToMap_roundtrip_witness:
  "distinct (map fname
     [\<lparr>fname = ''Avail'', fdesc = \<lparr>Skip = False, SkipIfFlag = None, OmitIfEmpty = False, Writable = False\<rparr>,
        fvalue = VString ''foo''\<rparr>,
      \<lparr>fname = ''Delay'', fdesc = \<lparr>Skip = False, SkipIfFlag = Some ''Avail'', OmitIfEmpty = True, Writable = True\<rparr>,
        fvalue = VUint16 7\<rparr>]) \<and>
   \<not> excluded
       [\<lparr>fname = ''Avail'', fdesc = \<lparr>Skip = False, SkipIfFlag = None, OmitIfEmpty = False, Writable = False\<rparr>,
          fvalue = VString ''foo''\<rparr>,
        \<lparr>fname = ''Delay'', fdesc = \<lparr>Skip = False, SkipIfFlag = Some ''Avail'', OmitIfEmpty = True, Writable = True\<rparr>,
          fvalue = VUint16 7\<rparr>]
       \<lparr>fname = ''Avail'', fdesc = \<lparr>Skip = False, SkipIfFlag = None, OmitIfEmpty = False, Writable = False\<rparr>,
          fvalue = VString ''foo''\<rparr> \<and>
   \<not> excluded
       [\<lparr>fname = ''Avail'', fdesc = \<lparr>Skip = False, SkipIfFlag = None, OmitIfEmpty = False, Writable = False\<rparr>,
          fvalue = VString ''foo''\<rparr>,
        \<lparr>fname = ''Delay'', fdesc = \<lparr>Skip = False, SkipIfFlag = Some ''Avail'', OmitIfEmpty = True, Writable = True\<rparr>,
          fvalue = VUint16 7\<rparr>]
       \<lparr>fname = ''Delay'', fdesc = \<lparr>Skip = False, SkipIfFlag = Some ''Avail'', OmitIfEmpty = True, Writable = True\<rparr>,
          fvalue = VUint16 7\<rparr> \<and>
   FromMap
     [\<lparr>fname = ''Avail'', fdesc = \<lparr>Skip = False, SkipIfFlag = None, OmitIfEmpty = False, Writable = False\<rparr>,
        fvalue = VString ''foo''\<rparr>,
      \<lparr>fname = ''Delay'', fdesc = \<lparr>Skip = False, SkipIfFlag = Some ''Avail'', OmitIfEmpty = True, Writable = True\<rparr>,
        fvalue = VUint16 7\<rparr>]
     (ToMap
       [\<lparr>fname = ''Avail'', fdesc = \<lparr>Skip = False, SkipIfFlag = None, OmitIfEmpty = False, Writable = False\<rparr>,
          fvalue = VString ''foo''\<rparr>,
        \<lparr>fname = ''Delay'', fdesc = \<lparr>Skip = False, SkipIfFlag = Some ''Avail'', OmitIfEmpty = True, Writable = True\<rparr>,
          fvalue = VUint16 7\<rparr>]) =
   Inr [\<lparr>fname = ''Avail'', fdesc = \<lparr>Skip = False, SkipIfFlag = None, OmitIfEmpty = False, Writable = False\<rparr>,
          fvalue = VString ''foo''\<rparr>,
        \<lparr>fname = ''Delay'', fdesc = \<lparr>Skip = False, SkipIfFlag = Some ''Avail'', OmitIfEmpty = True, Writable = True\<rparr>,
          fvalue = VUint16 7\<rparr>]"
proof -
  let ?f1 = "\<lparr>fname = ''Avail'', fdesc = \<lparr>Skip = False, SkipIfFlag = None, OmitIfEmpty = False, Writable = False\<rparr>,
        fvalue = VString ''foo''\<rparr>"
  let ?f2 = "\<lparr>fname = ''Delay'', fdesc = \<lparr>Skip = False, SkipIfFlag = Some ''Avail'', OmitIfEmpty = True, Writable = True\<rparr>,
        fvalue = VUint16 7\<rparr>"
  have d: "distinct (map fname [?f1, ?f2])" by simp
  have e1: "\<not> excluded [?f1, ?f2] ?f1" by (simp add: excluded_def)
  have e2: "\<not> excluded [?f1, ?f2] ?f2" by (simp add: excluded_def flag_true_def)
  from e1 e2 have e: "\<forall>f \<in> set [?f1, ?f2]. \<not> excluded [?f1, ?f2] f" by simp
  from d e1 e2 FromMap_ToMap_roundtrip[OF d e] show ?thesis by blast
qed

text \<open>
  C3, as stated, fails. The block \<^verbatim>\<open>string Foo Bar (optional)\<close> whose docs paragraph is
  one space is accepted; its \<open>Name\<close> is \<^verbatim>\<open>Foo Bar\<close>, which contains a space, and its
  \<open>Docs\<close> is the marker \<^verbatim>\<open>(optional) \<close>, which ends in a space.
\<close>

theorem name_whitespace_docs_trimmed_counterexample:
  "Parse \<lparr>model = 0, debug = False\<rparr> ''string Foo Bar (optional)\<newline> ''
     [\<lparr>Type = [], Name = [], Flags = [], Docs = []\<rparr>] =
   Inr (0, None,
        [\<lparr>Type = ''string'', Name = ''Foo Bar'', Flags = [], Docs = ''(optional) ''\<rparr>])"
  by code_simp

text \<open>
  C3, amended. For every block \<open>Parse\<close> accepts, \<open>Name\<close> contains no newline, and \<open>Docs\<close>
  is a text that neither starts nor ends with a space, a tab or a newline, or the marker
  \<^verbatim>\<open>(optional) \<close> followed by such a text.
\<close>

theorem name_one_line_docs_trimmed:
  assumes "Parse g raw h = Inr (p, None, h')"
  shows "nl \<notin> set (Name (h' ! p)) \<and>
         (\<exists>d. (Docs (h' ! p) = d \<or> Docs (h' ! p) = ''(optional) '' @ d) \<and>
              (d = [] \<or> (hd d \<notin> {CHR '' '', tab, nl} \<and> last d \<notin> {CHR '' '', tab, nl})))"
proof -
  from Parse_ok_shape[OF assms] obtain name docs where
    n: "nl \<notin> set name" and
    N: "Name (h' ! p) = Replace (if Contains name ''optional''
                              then Replace name '' (optional)'' [] else name)
                       [CHR '' '', tab, nl] []" and
    D: "Docs (h' ! p) = (if Contains name ''optional''
                      then ''(optional) '' @ Trim (Replace docs [CHR '' '', tab, nl] []) [CHR '' '', tab, nl]
                      else Trim (Replace docs [CHR '' '', tab, nl] []) [CHR '' '', tab, nl])"
    by fastforce
  let ?d = "Trim (Replace docs [CHR '' '', tab, nl] []) [CHR '' '', tab, nl]"
  have "set (Name (h' ! p)) \<subseteq> set name"
    unfolding N using Replace_set[of name "'' (optional)''" "[]"]
      Replace_set[of "Replace name '' (optional)'' []" "[CHR '' '', tab, nl]" "[]"]
      Replace_set[of name "[CHR '' '', tab, nl]" "[]"]
    by (auto split: if_splits)
  with n have 1: "nl \<notin> set (Name (h' ! p))" by blast
  have 2: "Docs (h' ! p) = ?d \<or> Docs (h' ! p) = ''(optional) '' @ ?d"
    unfolding D by simp
  have 3: "?d = [] \<or> (hd ?d \<notin> {CHR '' '', tab, nl} \<and> last ?d \<notin> {CHR '' '', tab, nl})"
    using Trim_ends[of "Replace docs [CHR '' '', tab, nl] []" "[CHR '' '', tab, nl]"] by auto
  from 1 2 3 show ?thesis by blast
qed

theorem name_one_line_docs_trimmed_witness:
  "Parse \<lparr>model = 0, debug = False\<rparr> ''bool Ab\<newline> x ''
     [\<lparr>Type = [], Name = [], Flags = [], Docs = []\<rparr>] =
   Inr (0, None, [\<lparr>Type = ''bool'', Name = ''Ab'', Flags = [], Docs = ''x''\<rparr>]) \<and>
   nl \<notin> set (Name ([\<lparr>Type = ''bool'', Name = ''Ab'', Flags = [], Docs = ''x''\<rparr>] ! 0)) \<and>
   (\<exists>d. (Docs ([\<lparr>Type = ''bool'', Name = ''Ab'', Flags = [], Docs = ''x''\<rparr>] ! 0) = d \<or>
         Docs ([\<lparr>Type = ''bool'', Name = ''Ab'', Flags = [], Docs = ''x''\<rparr>] ! 0) = ''(optional) '' @ d) \<and>
        (d = [] \<or> (hd d \<notin> {CHR '' '', tab, nl} \<and> last d \<notin> {CHR '' '', tab, nl})))"
  using eval_plain_parse name_one_line_docs_trimmed[OF eval_plain_parse] by blast

text \<open>
  C4. When the raw name of the matched block (group 2) is \<^verbatim>\<open>Handle (optional)\<close>, \<open>Parse\<close>
  succeeds with \<open>Name\<close> equal to \<^verbatim>\<open>Handle\<close>, and \<open>Docs\<close> is the marker
  \<^verbatim>\<open>(optional) \<close> followed by the trimmed docs paragraph: the marker is put in front
  once.
\<close>

theorem optional_moves_from_name_to_docs:
  assumes "model g < length h" and "matches2 raw = m # others"
    and "at_str m 2 = Inr ''Handle (optional)''"
  shows "\<exists>h' docs. at_str m 4 = Inr docs \<and>
           Parse g raw h = Inr (model g, None, h') \<and>
           Name (h' ! model g) = ''Handle'' \<and>
           Docs (h' ! model g) =
             ''(optional) '' @ Trim (Replace docs [CHR '' '', tab, nl] []) [CHR '' '', tab, nl]"
proof -
  from Parse_match[OF assms(2) assms(1)] obtain whole ty name g3 docs where
    m: "m = [Some whole, Some ty, Some name, g3, Some docs]" and
    P: "Parse g raw h = Inr (model g, None, list_update h (model g)
             \<lparr>Type = ty,
              Name = Replace (if Contains name ''optional''
                              then Replace name '' (optional)'' [] else name)
                       [CHR '' '', tab, nl] [],
              Flags = flags_loop (Split (Trim (case g3 of None \<Rightarrow> [] | Some t \<Rightarrow> t) ''[] '')
                                   CHR '','') [],
              Docs = (if Contains name ''optional''
                      then ''(optional) '' @ Trim (Replace docs [CHR '' '', tab, nl] []) [CHR '' '', tab, nl]
                      else Trim (Replace docs [CHR '' '', tab, nl] []) [CHR '' '', tab, nl])\<rparr>)"
    by blast
  from assms(3) m have name: "name = ''Handle (optional)''" by (simp add: at_str_def)
  have c: "Contains ''Handle (optional)'' ''optional''" by code_simp
  have r: "Replace (Replace ''Handle (optional)'' '' (optional)'' []) [CHR '' '', tab, nl] [] = ''Handle''"
    by code_simp
  have d: "at_str m 4 = Inr docs" by (simp add: m at_str_def)
  let ?h' = "list_update h (model g)
             \<lparr>Type = ty, Name = ''Handle'',
              Flags = flags_loop (Split (Trim (case g3 of None \<Rightarrow> [] | Some t \<Rightarrow> t) ''[] '')
                                   CHR '','') [],
              Docs = ''(optional) '' @ Trim (Replace docs [CHR '' '', tab, nl] []) [CHR '' '', tab, nl]\<rparr>"
  have "Parse g raw h = Inr (model g, None, ?h')"
    using P unfolding name using c r by simp
  moreover have "Name (?h' ! model g) = ''Handle''" using assms(1) by simp
  moreover have "Docs (?h' ! model g) =
             ''(optional) '' @ Trim (Replace docs [CHR '' '', tab, nl] []) [CHR '' '', tab, nl]"
    using assms(1) by simp
  ultimately show ?thesis using d by blast
qed

theorem optional_moves_from_name_to_docs_witness:
  "model \<lparr>model = 0, debug = False\<rparr> < length [\<lparr>Type = [], Name = [], Flags = [], Docs = []\<rparr>] \<and>
   at_str [Some ''uint16 Handle (optional) [readonly]\<newline>  The handle.\<newline>'', Some ''uint16'',
       Some ''Handle (optional)'', Some '' [readonly]'', Some ''  The handle.\<newline>''] 2 =
     Inr ''Handle (optional)'' \<and>
   (\<exists>h'. Parse \<lparr>model = 0, debug = False\<rparr>
           ''uint16 Handle (optional) [readonly]\<newline>  The handle.\<newline>''
           [\<lparr>Type = [], Name = [], Flags = [], Docs = []\<rparr>] = Inr (0, None, h') \<and>
         Name (h' ! 0) = ''Handle'' \<and> Docs (h' ! 0) = ''(optional) The handle.'')"
proof -
  let ?g = "\<lparr>model = 0, debug = False\<rparr>"
  let ?h = "[\<lparr>Type = [], Name = [], Flags = [], Docs = []\<rparr>]"
  let ?m = "[Some ''uint16 Handle (optional) [readonly]\<newline>  The handle.\<newline>'', Some ''uint16'',
       Some ''Handle (optional)'', Some '' [readonly]'', Some ''  The handle.\<newline>'']"
  have v: "model ?g < length ?h" by simp
  have a: "at_str ?m 2 = Inr ''Handle (optional)''" by (simp add: at_str_def)
  have b: "at_str ?m 4 = Inr ''  The handle.\<newline>''" by (simp add: at_str_def)
  have t: "Trim (Replace ''  The handle.\<newline>'' [CHR '' '', tab, nl] []) [CHR '' '', tab, nl] = ''The handle.''"
    by code_simp
  from optional_moves_from_name_to_docs[OF v eval_handle_matches2 a] obtain h' docs where
    "at_str ?m 4 = Inr docs"
    "Parse ?g ''uint16 Handle (optional) [readonly]\<newline>  The handle.\<newline>'' ?h = Inr (model ?g, None, h')"
    "Name (h' ! model ?g) = ''Handle''"
    "Docs (h' ! model ?g) = ''(optional) '' @ Trim (Replace docs [CHR '' '', tab, nl] []) [CHR '' '', tab, nl]"
    by blast
  with b t have "Parse ?g ''uint16 Handle (optional) [readonly]\<newline>  The handle.\<newline>'' ?h = Inr (0, None, h') \<and>
         Name (h' ! 0) = ''Handle'' \<and> Docs (h' ! 0) = ''(optional) The handle.''"
    by simp
  with v a show ?thesis by blast
qed



text \<open>
  C6. \<open>Parse\<close> returns the error "No property found" exactly when neither pattern
  matches the raw block: when neither matches, that error is returned (with the pointer
  and an untouched heap) and nothing panics; an error is returned only then; and a block
  that at least one pattern matches gives a \<open>Property\<close> with a \<open>nil\<close> error, without a
  panic, for a parser whose \<open>model\<close> is allocated (as \<open>NewPropertyParser\<close> leaves it).
\<close>

theorem Parse_no_property_found_iff:
  "(FindAllSubmatch re_strict raw = [] \<and> FindAllSubmatch re_loose raw = [] \<longrightarrow>
      Parse g raw h = Inr (model g, Some (Error ''No property found''), h)) \<and>
   ((\<exists>p e h'. Parse g raw h = Inr (p, Some e, h')) \<longrightarrow>
      FindAllSubmatch re_strict raw = [] \<and> FindAllSubmatch re_loose raw = []) \<and>
   (model g < length h \<and>
      (FindAllSubmatch re_strict raw \<noteq> [] \<or> FindAllSubmatch re_loose raw \<noteq> []) \<longrightarrow>
      (\<exists>h'. Parse g raw h = Inr (model g, None, h'))) \<and>
   (model g < length h \<longrightarrow> (\<forall>p. Parse g raw h \<noteq> Inl p))"
proof -
  have 1: "Parse g raw h = Inr (model g, Some (Error ''No property found''), h)"
    if "FindAllSubmatch re_strict raw = [] \<and> FindAllSubmatch re_loose raw = []"
  proof -
    from that have "matches2 raw = []" by (simp add: matches2_strict)
    then show ?thesis by (rule Parse_no_match)
  qed
  have 2: "FindAllSubmatch re_strict raw = [] \<and> FindAllSubmatch re_loose raw = []"
    if "\<exists>p e h'. Parse g raw h = Inr (p, Some e, h')"
  proof -
    from that obtain p e h' where "Parse g raw h = Inr (p, Some e, h')" by blast
    from Parse_error_iff[OF this] have "FindAllSubmatch re_strict raw = []"
      by (simp add: matches2_strict)
    then show ?thesis by (simp add: strict_Nil_loose_Nil)
  qed
  have 3: "\<exists>h'. Parse g raw h = Inr (model g, None, h')"
    if "model g < length h \<and>
      (FindAllSubmatch re_strict raw \<noteq> [] \<or> FindAllSubmatch re_loose raw \<noteq> [])"
  proof -
    from that have "FindAllSubmatch re_strict raw \<noteq> []" using strict_Nil_loose_Nil by blast
    then obtain m others where "matches2 raw = m # others"
      by (cases "FindAllSubmatch re_strict raw") (auto simp: matches2_strict)
    moreover from that have "model g < length h" by simp
    ultimately show ?thesis using Parse_match by blast
  qed
  have 4: "\<forall>p. Parse g raw h \<noteq> Inl p" if v: "model g < length h"
  proof (cases "matches2 raw")
    case Nil
    then show ?thesis by (simp add: Parse_no_match)
  next
    case (Cons m others)
    from Parse_match[OF this v] show ?thesis by auto
  qed
  from 1 2 3 4 show ?thesis by blast
qed

theorem Parse_no_property_found_iff_witness:
  "FindAllSubmatch re_strict ''x'' = [] \<and> FindAllSubmatch re_loose ''x'' = [] \<and>
   Parse \<lparr>model = 0, debug = False\<rparr> ''x'' [\<lparr>Type = [], Name = [], Flags = [], Docs = []\<rparr>] =
     Inr (0, Some (Error ''No property found''), [\<lparr>Type = [], Name = [], Flags = [], Docs = []\<rparr>]) \<and>
   FindAllSubmatch re_strict (''bool Ab\<newline>x'') \<noteq> [] \<and>
   (\<exists>h'. Parse \<lparr>model = 0, debug = False\<rparr> (''bool Ab\<newline>x'')
            [\<lparr>Type = [], Name = [], Flags = [], Docs = []\<rparr>] = Inr (0, None, h'))"
proof -
  let ?g = "\<lparr>model = 0, debug = False\<rparr>"
  let ?h = "[\<lparr>Type = [], Name = [], Flags = [], Docs = []\<rparr>]"
  let ?raw = "''bool Ab\<newline>x''"
  note a = eval_no_match_strict and b = eval_no_match_loose
  have c: "FindAllSubmatch re_strict ?raw \<noteq> []" by (simp add: eval_plain_strict)
  have "Parse ?g ''x'' ?h = Inr (model ?g, Some (Error ''No property found''), ?h)"
    using Parse_no_property_found_iff[of "''x''" ?g ?h] a b by blast
  then have d: "Parse ?g ''x'' ?h = Inr (0, Some (Error ''No property found''), ?h)" by simp
  have "model ?g < length ?h \<and>
      (FindAllSubmatch re_strict ?raw \<noteq> [] \<or> FindAllSubmatch re_loose ?raw \<noteq> [])"
    using c by simp
  then have "\<exists>h'. Parse ?g ?raw ?h = Inr (model ?g, None, h')"
    using Parse_no_property_found_iff[of ?raw ?g ?h] by blast
  then have e: "\<exists>h'. Parse ?g ?raw ?h = Inr (0, None, h')" by simp
  from a b c d e show ?thesis by blast
qed

text \<open>
  C7, as stated, fails. In the block \<^verbatim>\<open>string Foo [bogus, readonly]\<close> with the docs line
  \<^verbatim>\<open>x\<close> the list holds an unknown token and the known token \<open>readonly\<close>; \<open>Parse\<close>
  succeeds, but \<open>Flags\<close> is empty: the fragment after the comma is \<^verbatim>\<open> readonly\<close>,
  with the space, which the \<open>switch\<close> does not recognise.
\<close>

theorem known_token_after_a_space_counterexample:
  "Parse \<lparr>model = 0, debug = False\<rparr> ''string Foo [bogus, readonly]\<newline>x''
     [\<lparr>Type = [], Name = [], Flags = [], Docs = []\<rparr>] =
   Inr (0, None, [\<lparr>Type = ''string'', Name = ''Foo'', Flags = [], Docs = ''x''\<rparr>])"
  by code_simp

text \<open>
  C7, amended. Whatever the bracketed flag list of a matched block holds, \<open>Parse\<close>
  succeeds without an error. The flag text is trimmed of \<open>[\<close>, \<open>]\<close> and spaces at its two
  ends and split at the commas; \<open>Flags\<close> holds, in order, one flag for each fragment whose
  text before its first \<open>]\<close> is exactly \<open>readonly\<close>, \<open>readwrite\<close> or \<open>experimental\<close>, and
  nothing for any other fragment: an unknown token, or a known token with a space before
  it. So \<^verbatim>\<open>[readonly,bogus,experimental]\<close> gives ReadOnly and Experimental and
  \<^verbatim>\<open>[bogus,readonly] (Server Only)\<close> gives ReadOnly, while \<^verbatim>\<open>[readonly, experimental]\<close>
  gives ReadOnly alone and \<^verbatim>\<open>[bogus, readonly]\<close> gives no flag.
\<close>

theorem only_exact_fragments_become_flags:
  assumes "model g < length h" and "matches2 raw = m # others"
  shows "\<exists>h' flagListRaw.
           at_str m 3 = Inr flagListRaw \<and>
           Parse g raw h = Inr (model g, None, h') \<and>
           Flags (h' ! model g) =
             concat (map (\<lambda>f. if takeWhile (\<lambda>x. x \<noteq> CHR '']'') f = ''readonly''
                               then [FlagReadOnly]
                               else if takeWhile (\<lambda>x. x \<noteq> CHR '']'') f = ''readwrite''
                               then [FlagReadWrite]
                               else if takeWhile (\<lambda>x. x \<noteq> CHR '']'') f = ''experimental''
                               then [FlagExperimental]
                               else [])
                         (Split (Trim flagListRaw ''[] '') CHR '','')) \<and>
           (flagListRaw = '' [readonly,bogus,experimental]'' \<longrightarrow>
              Flags (h' ! model g) = [FlagReadOnly, FlagExperimental]) \<and>
           (flagListRaw = '' [bogus,readonly] (Server Only)'' \<longrightarrow>
              Flags (h' ! model g) = [FlagReadOnly]) \<and>
           (flagListRaw = '' [readonly, experimental]'' \<longrightarrow>
              Flags (h' ! model g) = [FlagReadOnly]) \<and>
           (flagListRaw = '' [bogus, readonly]'' \<longrightarrow> Flags (h' ! model g) = [])"
proof -
  from Parse_match[OF assms(2) assms(1)] obtain whole ty name g3 docs where
    m: "m = [Some whole, Some ty, Some name, g3, Some docs]" and
    P: "Parse g raw h = Inr (model g, None, list_update h (model g)
             \<lparr>Type = ty,
              Name = Replace (if Contains name ''optional''
                              then Replace name '' (optional)'' [] else name)
                       [CHR '' '', tab, nl] [],
              Flags = flags_loop (Split (Trim (case g3 of None \<Rightarrow> [] | Some t \<Rightarrow> t) ''[] '')
                                   CHR '','') [],
              Docs = (if Contains name ''optional''
                      then ''(optional) '' @ Trim (Replace docs [CHR '' '', tab, nl] []) [CHR '' '', tab, nl]
                      else Trim (Replace docs [CHR '' '', tab, nl] []) [CHR '' '', tab, nl])\<rparr>)"
    by blast
  define fl where "fl = (case g3 of None \<Rightarrow> [] | Some t \<Rightarrow> t)"
  have a: "at_str m 3 = Inr fl" by (simp add: m at_str_def fl_def)
  have c: "(case switch_flag (cut_bracket f) of None \<Rightarrow> [] | Some fl \<Rightarrow> [fl]) =
           (if takeWhile (\<lambda>x. x \<noteq> CHR '']'') f = ''readonly'' then [FlagReadOnly]
            else if takeWhile (\<lambda>x. x \<noteq> CHR '']'') f = ''readwrite'' then [FlagReadWrite]
            else if takeWhile (\<lambda>x. x \<noteq> CHR '']'') f = ''experimental'' then [FlagExperimental]
            else [])" for f
    unfolding cut_bracket_takeWhile by (simp add: switch_flag_def)
  let ?h' = "list_update h (model g)
             \<lparr>Type = ty,
              Name = Replace (if Contains name ''optional''
                              then Replace name '' (optional)'' [] else name)
                       [CHR '' '', tab, nl] [],
              Flags = flags_loop (Split (Trim fl ''[] '') CHR '','') [],
              Docs = (if Contains name ''optional''
                      then ''(optional) '' @ Trim (Replace docs [CHR '' '', tab, nl] []) [CHR '' '', tab, nl]
                      else Trim (Replace docs [CHR '' '', tab, nl] []) [CHR '' '', tab, nl])\<rparr>"
  have P': "Parse g raw h = Inr (model g, None, ?h')" using P by (simp add: fl_def)
  have F: "Flags (?h' ! model g) = flags_loop (Split (Trim fl ''[] '') CHR '','') []"
    using assms(1) by simp
  have G: "Flags (?h' ! model g) =
             concat (map (\<lambda>f. if takeWhile (\<lambda>x. x \<noteq> CHR '']'') f = ''readonly''
                               then [FlagReadOnly]
                               else if takeWhile (\<lambda>x. x \<noteq> CHR '']'') f = ''readwrite''
                               then [FlagReadWrite]
                               else if takeWhile (\<lambda>x. x \<noteq> CHR '']'') f = ''experimental''
                               then [FlagExperimental]
                               else [])
                         (Split (Trim fl ''[] '') CHR '',''))"
  proof -
    have "flags_loop (Split (Trim fl ''[] '') CHR '','') [] =
             concat (map (\<lambda>f. if takeWhile (\<lambda>x. x \<noteq> CHR '']'') f = ''readonly''
                               then [FlagReadOnly]
                               else if takeWhile (\<lambda>x. x \<noteq> CHR '']'') f = ''readwrite''
                               then [FlagReadWrite]
                               else if takeWhile (\<lambda>x. x \<noteq> CHR '']'') f = ''experimental''
                               then [FlagExperimental]
                               else [])
                         (Split (Trim fl ''[] '') CHR '',''))"
      unfolding flags_loop_acc c by simp
    with F show ?thesis by (rule trans)
  qed
  have e1: "flags_loop (Split (Trim '' [readonly,bogus,experimental]'' ''[] '') CHR '','') [] =
              [FlagReadOnly, FlagExperimental]" by code_simp
  have e2: "flags_loop (Split (Trim '' [bogus,readonly] (Server Only)'' ''[] '') CHR '','') [] =
              [FlagReadOnly]" by code_simp
  have e3: "flags_loop (Split (Trim '' [readonly, experimental]'' ''[] '') CHR '','') [] =
              [FlagReadOnly]" by code_simp
  have e4: "flags_loop (Split (Trim '' [bogus, readonly]'' ''[] '') CHR '','') [] = []"
    by code_simp
  have H1: "fl = '' [readonly,bogus,experimental]'' \<longrightarrow>
        Flags (?h' ! model g) = [FlagReadOnly, FlagExperimental]"
  proof
    assume x: "fl = '' [readonly,bogus,experimental]''"
    show "Flags (?h' ! model g) = [FlagReadOnly, FlagExperimental]"
      using F e1 unfolding x by (rule trans)
  qed
  have H2: "fl = '' [bogus,readonly] (Server Only)'' \<longrightarrow> Flags (?h' ! model g) = [FlagReadOnly]"
  proof
    assume x: "fl = '' [bogus,readonly] (Server Only)''"
    show "Flags (?h' ! model g) = [FlagReadOnly]" using F e2 unfolding x by (rule trans)
  qed
  have H3: "fl = '' [readonly, experimental]'' \<longrightarrow> Flags (?h' ! model g) = [FlagReadOnly]"
  proof
    assume x: "fl = '' [readonly, experimental]''"
    show "Flags (?h' ! model g) = [FlagReadOnly]" using F e3 unfolding x by (rule trans)
  qed
  have H4: "fl = '' [bogus, readonly]'' \<longrightarrow> Flags (?h' ! model g) = []"
  proof
    assume x: "fl = '' [bogus, readonly]''"
    show "Flags (?h' ! model g) = []" using F e4 unfolding x by (rule trans)
  qed
  show ?thesis
    by (rule exI[of _ ?h'], rule exI[of _ fl]) (intro conjI a P' G H1 H2 H3 H4)
qed

theorem only_exact_fragments_become_flags_witness:
  "model \<lparr>model = 0, debug = False\<rparr> < length [\<lparr>Type = [], Name = [], Flags = [], Docs = []\<rparr>] \<and>
   matches2 ''string Foo [bogus,readonly] (Server Only)\<newline>x'' =
     [[Some ''string Foo [bogus,readonly] (Server Only)\<newline>x'', Some ''string'',
       Some ''Foo'', Some '' [bogus,readonly] (Server Only)'', Some ''x'']] \<and>
   (\<exists>h'. Parse \<lparr>model = 0, debug = False\<rparr> ''string Foo [bogus,readonly] (Server Only)\<newline>x''
           [\<lparr>Type = [], Name = [], Flags = [], Docs = []\<rparr>] = Inr (0, None, h') \<and>
         Flags (h' ! 0) = [FlagReadOnly])"
proof -
  let ?g = "\<lparr>model = 0, debug = False\<rparr>"
  let ?h = "[\<lparr>Type = [], Name = [], Flags = [], Docs = []\<rparr>]"
  let ?raw = "''string Foo [bogus,readonly] (Server Only)\<newline>x''"
  let ?m = "[Some ''string Foo [bogus,readonly] (Server Only)\<newline>x'', Some ''string'',
       Some ''Foo'', Some '' [bogus,readonly] (Server Only)'', Some ''x'']"
  have v: "model ?g < length ?h" by simp
  have a: "at_str ?m 3 = Inr '' [bogus,readonly] (Server Only)''" by (simp add: at_str_def)
  from only_exact_fragments_become_flags[OF v eval_server_only_matches2]
  obtain h' flagListRaw where
    1: "at_str ?m 3 = Inr flagListRaw" and
    2: "Parse ?g ?raw ?h = Inr (model ?g, None, h')" and
    3: "flagListRaw = '' [bogus,readonly] (Server Only)'' \<longrightarrow> Flags (h' ! model ?g) = [FlagReadOnly]"
    by blast
  from 1 a have "flagListRaw = '' [bogus,readonly] (Server Only)''" by simp
  with 2 3 have "Parse ?g ?raw ?h = Inr (0, None, h') \<and> Flags (h' ! 0) = [FlagReadOnly]"
    by simp
  with v eval_server_only_matches2 show ?thesis by blast
qed

text \<open>
  C8. Generation is idempotent: running \<open>Generate\<close> again with the same models and
  destination root on the file tree the first run left gives the same file tree (and the
  same result) as the first run.
\<close>

theorem Generate_idempotent:
  "Generate render path_of models root (fst (Generate render path_of models root fs)) =
   Generate render path_of models root fs"
proof -
  from Generate_writes obtain w e where
    G: "\<And>fs. Generate render path_of models root fs = (fs ++ w, e)" by blast
  have "(fs ++ w) ++ w = fs ++ w" by (rule ext) (simp add: map_add_def split: option.splits)
  then show ?thesis by (simp add: G)
qed

theorem Generate_idempotent_witness:
  "Generate (\<lambda>m. Inr (InterfaceName m)) (\<lambda>root n. root @ ''/'' @ n)
     [\<lparr>InterfaceName = ''org.bluez.MediaTransport1'', Properties = [], Methods = [],
        Signals = [], InterfaceDocs = []\<rparr>] ''out''
     (fst (Generate (\<lambda>m. Inr (InterfaceName m)) (\<lambda>root n. root @ ''/'' @ n)
        [\<lparr>InterfaceName = ''org.bluez.MediaTransport1'', Properties = [], Methods = [],
           Signals = [], InterfaceDocs = []\<rparr>] ''out'' Map.empty)) =
   Generate (\<lambda>m. Inr (InterfaceName m)) (\<lambda>root n. root @ ''/'' @ n)
     [\<lparr>InterfaceName = ''org.bluez.MediaTransport1'', Properties = [], Methods = [],
        Signals = [], InterfaceDocs = []\<rparr>] ''out'' Map.empty"
  by (rule Generate_idempotent)

text \<open>
  C9. \<open>NewPropertyParser\<close> allocates one zero \<open>Property\<close>. Every call of \<open>Parse\<close> that
  returns gives back the pointer \<open>model\<close> of the parser and allocates nothing. A call that
  returns an error leaves the heap as it was, so the returned pointer still reads the
  values of the last successful call (or the zero values). A later successful call
  overwrites what the pointer an earlier call returned reads: it then reads the result of
  the later block.
\<close>

theorem Parse_returns_the_one_model:
  "(NewPropertyParser dbg h0 = (g0, h1) \<longrightarrow>
      model g0 < length h1 \<and> h1 ! model g0 = \<lparr>Type = [], Name = [], Flags = [], Docs = []\<rparr>) \<and>
   (Parse g raw h = Inr (p, e, h') \<longrightarrow> p = model g \<and> length h' = length h) \<and>
   (Parse g raw h = Inr (p, Some err, h') \<longrightarrow> h' = h) \<and>
   (Parse g raw h = Inr (p, None, h') \<and> Parse g raw2 h' = Inr (p2, Some err2, h2) \<longrightarrow>
      p2 = p \<and> h2 ! p2 = h' ! p) \<and>
   (Parse g raw h = Inr (p, None, h') \<and> Parse g raw2 h' = Inr (p2, None, h2) \<and>
    Parse g raw2 h = Inr (p3, None, h3) \<longrightarrow>
      p2 = p \<and> h2 ! p = h3 ! p3)"
proof -
  have 1: "model g0 < length h1 \<and> h1 ! model g0 = \<lparr>Type = [], Name = [], Flags = [], Docs = []\<rparr>"
    if "NewPropertyParser dbg h0 = (g0, h1)"
    using that by (auto simp: NewPropertyParser_def new_Property_def)
  have 2: "p = model g \<and> length h' = length h" if "Parse g raw h = Inr (p, e, h')" for p e h' raw h
    using that unfolding Parse_def
    by (auto simp: Let_def split: list.splits sum.splits if_splits)
  have 3: "h' = h" if "Parse g raw h = Inr (p, Some err, h')" for p err h' raw h
    using Parse_error_iff[OF that] by simp
  have 4: "p2 = p \<and> h2 ! p2 = h' ! p"
    if "Parse g raw h = Inr (p, None, h') \<and> Parse g raw2 h' = Inr (p2, Some err2, h2)"
    using that 2 3 by metis
  have 5: "p2 = p \<and> h2 ! p = h3 ! p3"
    if "Parse g raw h = Inr (p, None, h') \<and> Parse g raw2 h' = Inr (p2, None, h2) \<and>
        Parse g raw2 h = Inr (p3, None, h3)"
  proof -
    from that have a: "Parse g raw2 h' = Inr (p2, None, h2)" and b: "Parse g raw2 h = Inr (p3, None, h3)"
      and c: "Parse g raw h = Inr (p, None, h')" by simp_all
    from Parse_result_heap_independent[OF b a] have e1: "h2 ! p2 = h3 ! p3" by (rule conjunct2)
    from 2[OF c] 2[OF a] have e2: "p2 = p" by simp
    from e1 e2 show ?thesis by metis
  qed
  from 1 2 3 4 5 show ?thesis by blast
qed

theorem Parse_returns_the_one_model_witness:
  "NewPropertyParser False [] =
     (\<lparr>model = 0, debug = False\<rparr>, [\<lparr>Type = [], Name = [], Flags = [], Docs = []\<rparr>]) \<and>
   model \<lparr>model = 0, debug = False\<rparr> < length [\<lparr>Type = [], Name = [], Flags = [], Docs = []\<rparr>] \<and>
   Parse \<lparr>model = 0, debug = False\<rparr> ''string Foo [readwrite]\<newline>x''
     [\<lparr>Type = [], Name = [], Flags = [], Docs = []\<rparr>] =
     Inr (0, None, [\<lparr>Type = ''string'', Name = ''Foo'', Flags = [FlagReadWrite], Docs = ''x''\<rparr>]) \<and>
   Parse \<lparr>model = 0, debug = False\<rparr> ''x''
     [\<lparr>Type = ''string'', Name = ''Foo'', Flags = [FlagReadWrite], Docs = ''x''\<rparr>] =
     Inr (0, Some (Error ''No property found''),
          [\<lparr>Type = ''string'', Name = ''Foo'', Flags = [FlagReadWrite], Docs = ''x''\<rparr>]) \<and>
   Parse \<lparr>model = 0, debug = False\<rparr> ''bool Ab\<newline>x''
     [\<lparr>Type = ''string'', Name = ''Foo'', Flags = [FlagReadWrite], Docs = ''x''\<rparr>] =
     Inr (0, None, [\<lparr>Type = ''bool'', Name = ''Ab'', Flags = [], Docs = ''x''\<rparr>]) \<and>
   Parse \<lparr>model = 0, debug = False\<rparr> ''bool Ab\<newline>x''
     [\<lparr>Type = [], Name = [], Flags = [], Docs = []\<rparr>] =
     Inr (0, None, [\<lparr>Type = ''bool'', Name = ''Ab'', Flags = [], Docs = ''x''\<rparr>])"
proof -
  let ?g = "\<lparr>model = 0, debug = False\<rparr>"
  let ?z = "[\<lparr>Type = [], Name = [], Flags = [], Docs = []\<rparr>]"
  let ?a = "[\<lparr>Type = ''string'', Name = ''Foo'', Flags = [FlagReadWrite], Docs = ''x''\<rparr>]"
  let ?b = "[\<lparr>Type = ''bool'', Name = ''Ab'', Flags = [], Docs = ''x''\<rparr>]"
  note T1 = Parse_returns_the_one_model
    [of False "[]" ?g ?z ?g "''string Foo [readwrite]\<newline>x''" ?z 0 None ?a "Error ''No property found''"
        "''x''" 0 "Error ''No property found''" ?a 0 ?a]
  note T2 = Parse_returns_the_one_model
    [of False "[]" ?g ?z ?g "''string Foo [readwrite]\<newline>x''" ?z 0 None ?a "Error ''No property found''"
        "''bool Ab\<newline>x''" 0 "Error ''No property found''" ?b 0 ?b]
  from T1 eval_new have 1: "model ?g < length ?z" by blast
  from T1 eval_readwrite eval_fail_after have 2: "?a ! 0 = ?a ! 0" by blast
  from T2 eval_readwrite eval_overwrite eval_plain_parse2 have 3: "?b ! 0 = ?b ! 0" by blast
  from 1 2 3 eval_new eval_readwrite eval_fail_after eval_overwrite eval_plain_parse2
  show ?thesis by blast
qed

text \<open>
  C10. For each property getter of \<open>MediaTransport1\<close>: when \<open>GetProperty\<close> returns an
  error, the getter returns the zero value of its return type (empty object path, empty
  string, byte 0, empty byte slice, 0) with that same error, whatever variant came along
  with the error; it does not panic.
\<close>

theorem getters_return_zero_on_failure:
  "(GetProperty a ''Device'' = (v1, Some e1) \<longrightarrow> GetDevice a = Inr ([], Some e1)) \<and>
   (GetProperty a ''UUID'' = (v2, Some e2) \<longrightarrow> GetUUID a = Inr ([], Some e2)) \<and>
   (GetProperty a ''Codec'' = (v3, Some e3) \<longrightarrow> GetCodec a = Inr (0, Some e3)) \<and>
   (GetProperty a ''Configuration'' = (v4, Some e4) \<longrightarrow> GetConfiguration a = Inr ([], Some e4)) \<and>
   (GetProperty a ''State'' = (v5, Some e5) \<longrightarrow> GetState a = Inr ([], Some e5)) \<and>
   (GetProperty a ''Delay'' = (v6, Some e6) \<longrightarrow> GetDelay a = Inr (0, Some e6)) \<and>
   (GetProperty a ''Volume'' = (v7, Some e7) \<longrightarrow> GetVolume a = Inr (0, Some e7))"
  by (simp add: GetDevice_def GetUUID_def GetCodec_def GetConfiguration_def GetState_def
        GetDelay_def GetVolume_def)

theorem getters_return_zero_on_failure_witness:
  "GetProperty \<lparr>client = (\<lambda>n. (VUint16 7, Some (Error ''timeout'')))\<rparr> ''Device'' =
     (VUint16 7, Some (Error ''timeout'')) \<and>
   GetDevice \<lparr>client = (\<lambda>n. (VUint16 7, Some (Error ''timeout'')))\<rparr> =
     Inr ([], Some (Error ''timeout'')) \<and>
   GetUUID \<lparr>client = (\<lambda>n. (VUint16 7, Some (Error ''timeout'')))\<rparr> =
     Inr ([], Some (Error ''timeout'')) \<and>
   GetCodec \<lparr>client = (\<lambda>n. (VUint16 7, Some (Error ''timeout'')))\<rparr> =
     Inr (0, Some (Error ''timeout'')) \<and>
   GetConfiguration \<lparr>client = (\<lambda>n. (VUint16 7, Some (Error ''timeout'')))\<rparr> =
     Inr ([], Some (Error ''timeout'')) \<and>
   GetState \<lparr>client = (\<lambda>n. (VUint16 7, Some (Error ''timeout'')))\<rparr> =
     Inr ([], Some (Error ''timeout'')) \<and>
   GetDelay \<lparr>client = (\<lambda>n. (VUint16 7, Some (Error ''timeout'')))\<rparr> =
     Inr (0, Some (Error ''timeout'')) \<and>
   GetVolume \<lparr>client = (\<lambda>n. (VUint16 7, Some (Error ''timeout'')))\<rparr> =
     Inr (0, Some (Error ''timeout''))"
proof -
  let ?a = "\<lparr>client = (\<lambda>n. (VUint16 7, Some (Error ''timeout'')))\<rparr>"
  have g: "GetProperty ?a n = (VUint16 7, Some (Error ''timeout''))" for n
    by (simp add: GetProperty_def)
  note T = getters_return_zero_on_failure[of ?a "VUint16 7" "Error ''timeout''" "VUint16 7"
      "Error ''timeout''" "VUint16 7" "Error ''timeout''" "VUint16 7" "Error ''timeout''"
      "VUint16 7" "Error ''timeout''" "VUint16 7" "Error ''timeout''" "VUint16 7" "Error ''timeout''"]
  from T g show ?thesis by blast
qed

end
